theory Spec2Isabelle
  imports Main
begin

section \<open>Faults of the C program\<close>

text \<open>
  The program is C (GNU C with nested functions) on top of libxml2 and GLib.  A C
  function either returns or runs into undefined behaviour.  Every place where the
  source can do the latter is a branch of the model that yields a \<open>fault\<close>;
  a function of the model returns \<open>fault + 'a\<close>, with \<open>Inl\<close> for the fault.
\<close>

datatype fault =
    ReadPastEnd      \<comment> \<open>a read beyond the last byte of the memory that holds a string\<close>
  | NullDeref        \<comment> \<open>a NULL pointer is dereferenced (also inside \<open>strcmp\<close>)\<close>
  | UninitRead       \<comment> \<open>an uninitialised pointer is handed to libxml2, which dereferences it\<close>
  | AssertFail       \<comment> \<open>a \<open>g_assert\<close> fails and aborts the process\<close>
  | BufferOverflow   \<comment> \<open>a write beyond the end of the destination buffer\<close>

section \<open>The bracket scanner \<open>contains_unbalanced_braces\<close> (xml.c, lines 39-88)\<close>

text \<open>
  A C string is a pointer into memory.  The argument \<open>c\<close> is modelled as
  \<open>None\<close> for the NULL pointer and as \<open>Some mem\<close> otherwise, where \<open>mem\<close> lists the
  bytes that can be read from the address \<open>c\<close> on (to the end of the allocation).  The
  string itself is the part of \<open>mem\<close> before the first \<open>NUL\<close>.
\<close>

definition NUL :: char where
  "NUL = CHR 0x00"

text \<open>
  \<open>char stack[100]; int stackend = sizeof(stack);\<close>  The array is not initialised: its
  first contents are a parameter \<open>junk\<close> of the model.  The stack grows downwards from
  index 100; \<open>stackend\<close> is the index of the top element.
\<close>

record cub_state =
  stack :: "nat \<Rightarrow> char"
  stackend :: nat

definition cub_init :: "(nat \<Rightarrow> char) \<Rightarrow> cub_state" where
  "cub_init junk = \<lparr> stack = junk, stackend = 100 \<rparr>"

text \<open>\<open>cub_push\<close>: returns FALSE on a full stack, else stores at \<open>--stackend\<close>.\<close>

definition cub_push :: "char \<Rightarrow> cub_state \<Rightarrow> bool \<times> cub_state" where
  "cub_push b s =
     (if stackend s = 0 then (False, s)
      else (True, s\<lparr> stackend := stackend s - 1,
                     stack := (stack s)(stackend s - 1 := b) \<rparr>))"

text \<open>\<open>cub_pop\<close>: returns the letter E on an empty stack, else \<open>stack[stackend++]\<close>.\<close>

definition cub_pop :: "cub_state \<Rightarrow> char \<times> cub_state" where
  "cub_pop s =
     (if stackend s \<ge> 100 then (CHR ''E'', s)
      else (stack s (stackend s), s\<lparr> stackend := stackend s + 1 \<rparr>))"

text \<open>
  The body of the \<open>switch\<close>: \<open>None\<close> is \<open>return TRUE\<close>, \<open>Some s'\<close> is \<open>break\<close> with the
  new stack.
\<close>

definition cub_switch :: "char \<Rightarrow> cub_state \<Rightarrow> cub_state option" where
  "cub_switch ch s =
     (if ch = CHR ''('' \<or> ch = CHR ''['' \<or> ch = CHR ''{'' then
        (case cub_push ch s of (ok, s') \<Rightarrow> if \<not> ok then None else Some s')
      else if ch = CHR '')'' then
        (case cub_pop s of (p, s') \<Rightarrow> if p \<noteq> CHR ''('' then None else Some s')
      else if ch = CHR '']'' then
        (case cub_pop s of (p, s') \<Rightarrow> if p \<noteq> CHR ''['' then None else Some s')
      else if ch = CHR ''}'' then
        (case cub_pop s of (p, s') \<Rightarrow> if p \<noteq> CHR ''{'' then None else Some s')
      else Some s)"

text \<open>
  \<open>do { switch(*c) {...} c++; } while(*c);\<close>  The body runs on the byte at \<open>c\<close> before
  any test; the test reads the byte after it.  Both reads fault beyond the memory.
  After the loop, \<open>if(cub_pop()!='E') return TRUE; return FALSE;\<close>.
\<close>

fun cub_loop :: "cub_state \<Rightarrow> char list \<Rightarrow> fault + bool" where
  "cub_loop s [] = Inl ReadPastEnd"
| "cub_loop s (ch # rest) =
     (case cub_switch ch s of
        None \<Rightarrow> Inr True
      | Some s' \<Rightarrow>
          (case rest of
             [] \<Rightarrow> Inl ReadPastEnd
           | nx # _ \<Rightarrow>
               if nx \<noteq> NUL then cub_loop s' rest
               else Inr (fst (cub_pop s') \<noteq> CHR ''E'')))"

definition contains_unbalanced_braces :: "(nat \<Rightarrow> char) \<Rightarrow> char list option \<Rightarrow> fault + bool" where
  "contains_unbalanced_braces junk c =
     (case c of
        None \<Rightarrow> Inr False
      | Some mem \<Rightarrow> cub_loop (cub_init junk) mem)"


subsection \<open>Reference semantics of bracket nesting\<close>

text \<open>
  What the scanner is meant to decide, stated without a stack: the strings whose
  brackets are all closed in the order opened are those of the grammar
  \<open>S ::= \<epsilon> | c | (S) | [S] | {S} | S S\<close>, where \<open>c\<close> is any byte that is not a bracket.
\<close>

definition is_open :: "char \<Rightarrow> bool" where
  "is_open c = (c = CHR ''('' \<or> c = CHR ''['' \<or> c = CHR ''{'')"

definition is_close :: "char \<Rightarrow> bool" where
  "is_close c = (c = CHR '')'' \<or> c = CHR '']'' \<or> c = CHR ''}'')"

definition opener_of :: "char \<Rightarrow> char" where
  "opener_of c =
     (if c = CHR '')'' then CHR ''('' else if c = CHR '']'' then CHR ''['' else CHR ''{'')"

inductive balanced :: "char list \<Rightarrow> bool" where
  bal_empty: "balanced []"
| bal_other: "\<not> is_open c \<Longrightarrow> \<not> is_close c \<Longrightarrow> balanced [c]"
| bal_paren: "balanced w \<Longrightarrow> balanced (CHR ''('' # w @ [CHR '')''])"
| bal_square: "balanced w \<Longrightarrow> balanced (CHR ''['' # w @ [CHR '']''])"
| bal_curly: "balanced w \<Longrightarrow> balanced (CHR ''{'' # w @ [CHR ''}''])"
| bal_seq: "balanced v \<Longrightarrow> balanced w \<Longrightarrow> balanced (v @ w)"

text \<open>
  \<open>peak d s\<close> is the largest number of brackets open at once while \<open>s\<close> is read,
  starting with \<open>d\<close> open; \<open>nesting s\<close> is the nesting depth of \<open>s\<close>.
\<close>

fun peak :: "nat \<Rightarrow> char list \<Rightarrow> nat" where
  "peak d [] = d"
| "peak d (c # cs) =
     max d (peak (if is_open c then Suc d else if is_close c then d - 1 else d) cs)"

definition nesting :: "char list \<Rightarrow> nat" where
  "nesting s = peak 0 s"

text \<open>The same language, decided with a stack that has no bound (\<open>True\<close>: balanced).\<close>

fun scan :: "char list \<Rightarrow> char list \<Rightarrow> bool" where
  "scan st [] = (st = [])"
| "scan st (c # cs) =
     (if is_open c then scan (c # st) cs
      else if is_close c then
        (case st of [] \<Rightarrow> False | t # st' \<Rightarrow> t = opener_of c \<and> scan st' cs)
      else scan st cs)"

text \<open>
  The automaton of the specification, section 4.1, in its own words: a stack of
  capacity 100 of opening characters; push on an opener (overflow: unbalanced), pop on
  a closer (empty stack or wrong opener: unbalanced), unbalanced if the stack is not
  empty at the end.  \<open>True\<close> means unbalanced, as in the source.
\<close>

definition spec_step :: "char \<Rightarrow> char list \<Rightarrow> char list option" where
  "spec_step c st =
     (if is_open c then (if length st \<ge> 100 then None else Some (c # st))
      else if is_close c then
        (case st of [] \<Rightarrow> None | t # st' \<Rightarrow> if t \<noteq> opener_of c then None else Some st')
      else Some st)"

fun spec_has_unbalanced_brackets :: "char list \<Rightarrow> char list \<Rightarrow> bool" where
  "spec_has_unbalanced_brackets st [] = (st \<noteq> [])"
| "spec_has_unbalanced_brackets st (c # cs) =
     (case spec_step c st of None \<Rightarrow> True | Some st' \<Rightarrow> spec_has_unbalanced_brackets st' cs)"

text \<open>The link between the array of the source and the list of the specification.\<close>

definition stack_contents :: "cub_state \<Rightarrow> char list" where
  "stack_contents s = map (stack s) [stackend s..<100]"

definition cub_inv :: "cub_state \<Rightarrow> bool" where
  "cub_inv s = (stackend s \<le> 100 \<and> list_all is_open (stack_contents s))"

text \<open>An uninitialised stack array that happens to hold zero bytes.\<close>

definition zero_junk :: "nat \<Rightarrow> char" where
  "zero_junk i = NUL"

section \<open>Documents (libxml2 trees)\<close>

text \<open>
  libxml2 nodes are C structures linked by pointers.  A node pointer that is not NULL
  is a \<open>node_id\<close>; a pointer that may be NULL is a \<open>node_id option\<close>.  The heap maps
  every address to the node stored there.  Only the fields the source reads are kept:
  \<open>type\<close>, \<open>properties\<close> (the attribute list, in \<open>next\<close> order), \<open>children\<close> (the
  child list, in \<open>next\<close> order; \<open>[]\<close> is the NULL pointer) and \<open>parent\<close>.  The
  document is itself a node (\<open>XML_DOCUMENT_NODE\<close>) whose children are the top-level
  nodes.  Node sets of XPath hold node pointers; attribute nodes as members of a node
  set are outside the model.
\<close>

type_synonym node_id = nat

datatype xmlElementType =
    XML_ELEMENT_NODE | XML_ATTRIBUTE_NODE | XML_TEXT_NODE | XML_CDATA_SECTION_NODE
  | XML_ENTITY_REF_NODE | XML_PI_NODE | XML_COMMENT_NODE | XML_DOCUMENT_NODE

text \<open>
  An attribute: \<open>nattrs->name\<close> and the string \<open>xmlNodeGetContent(nattrs->children)\<close>
  returns for it; each may be NULL.
\<close>

record xmlAttr =
  attr_name :: "string option"
  attr_value :: "string option"

record xmlNode =
  ntype :: xmlElementType
  properties :: "xmlAttr list"
  children :: "node_id list"
  parent :: "node_id option"

type_synonym heap = "node_id \<Rightarrow> xmlNode"

definition xmlNodeIsText :: "heap \<Rightarrow> node_id \<Rightarrow> bool" where
  "xmlNodeIsText h n = (ntype (h n) = XML_TEXT_NODE)"

text \<open>
  libxml2's \<open>xmlUnlinkNode\<close>: the node leaves the child list of its parent and its
  \<open>parent\<close> pointer becomes NULL; nothing else changes, and the node keeps its own
  children.  A node without a parent stays as it is.
\<close>

definition xmlUnlinkNode :: "heap \<Rightarrow> node_id \<Rightarrow> heap" where
  "xmlUnlinkNode h n =
     (case parent (h n) of
        None \<Rightarrow> h
      | Some p \<Rightarrow>
          (let h1 = h(p := (h p)\<lparr> children := remove1 n (children (h p)) \<rparr>)
           in h1(n := (h1 n)\<lparr> parent := None \<rparr>)))"

text \<open>
  Modelled from the spec: section 8 speaks of re-inserting a detached leaf at the same
  tree position, and the sources hold no function that does it.  \<open>relink_at h p i n\<close>
  makes \<open>n\<close> the child number \<open>i\<close> (counted from 0) of \<open>p\<close> again: the inverse of
  \<open>xmlUnlinkNode\<close> on the two fields it changes.
\<close>

definition relink_at :: "heap \<Rightarrow> node_id \<Rightarrow> nat \<Rightarrow> node_id \<Rightarrow> heap" where
  "relink_at h p i n =
     (let h1 = h(n := (h n)\<lparr> parent := Some p \<rparr>)
      in h1(p := (h1 p)\<lparr> children := take i (children (h1 p)) @ n # drop i (children (h1 p)) \<rparr>))"

section \<open>The leaf shape validator (xml.c, lines 318-378)\<close>

text \<open>
  The whitelist: \<open>attrs\<close> is NULL (\<open>None\<close>) or a NULL-terminated array of strings (the
  list of its entries before the terminator); \<open>attr_contents\<close> is NULL or an array read
  in step with \<open>attrs\<close>, whose entries are strings or NULL.

  The inner \<open>while(*attr)\<close> loop for one attribute of the node, with name \<open>nm\<close> and value
  \<open>v\<close>.  Its first statement, a \<open>g_debug\<close> call, has \<open>*attr_content\<close> among its arguments,
  so the loop body dereferences \<open>attr_content\<close> before anything else.  The test then is
  \<open>!strcmp(name, *attr) && (!attr_content || !strcmp(attr_value, *attr_content))\<close>:
  it asks whether the pointer \<open>attr_content\<close> is NULL, not whether the entry
  \<open>*attr_content\<close> is, and \<open>strcmp\<close> dereferences both its arguments.
\<close>

fun attr_allowed ::
  "string \<Rightarrow> string option \<Rightarrow> string list \<Rightarrow> string option list option \<Rightarrow> fault + bool" where
  "attr_allowed nm v [] cont = Inr False"
| "attr_allowed nm v (a # as) None = Inl NullDeref"
| "attr_allowed nm v (a # as) (Some []) = Inl ReadPastEnd"
| "attr_allowed nm v (a # as) (Some (c # cs)) =
     (if nm = a then
        (case v of
           None \<Rightarrow> Inl NullDeref
         | Some val \<Rightarrow>
             (case c of
                None \<Rightarrow> Inl NullDeref
              | Some req \<Rightarrow> if val = req then Inr True else attr_allowed nm v as (Some cs)))
      else attr_allowed nm v as (Some cs))"

text \<open>
  The outer \<open>while(nattrs)\<close> loop: \<open>g_return_val_if_fail(nattrs->name, FALSE)\<close>, the
  inner loop, \<open>if(!allowed) return FALSE\<close>.
\<close>

fun attrs_allowed ::
  "xmlAttr list \<Rightarrow> string list \<Rightarrow> string option list option \<Rightarrow> fault + bool" where
  "attrs_allowed [] attrs cont = Inr True"
| "attrs_allowed (p # ps) attrs cont =
     (case attr_name p of
        None \<Rightarrow> Inr False
      | Some nm \<Rightarrow>
          (case attr_allowed nm (attr_value p) attrs cont of
             Inl f \<Rightarrow> Inl f
           | Inr allowed \<Rightarrow> if \<not> allowed then Inr False else attrs_allowed ps attrs cont))"

text \<open>
  The loop over the children: \<open>if(!xmlNodeIsText(n2)) return FALSE;
  g_assert(n2->children == NULL);\<close>
\<close>

fun only_text_children :: "heap \<Rightarrow> node_id list \<Rightarrow> fault + bool" where
  "only_text_children h [] = Inr True"
| "only_text_children h (n2 # rest) =
     (if \<not> xmlNodeIsText h n2 then Inr False
      else if children (h n2) \<noteq> [] then Inl AssertFail
      else only_text_children h rest)"

definition has_only_text_children_and_allowed_attrs ::
  "heap \<Rightarrow> node_id option \<Rightarrow> string list option \<Rightarrow> string option list option \<Rightarrow> fault + bool" where
  "has_only_text_children_and_allowed_attrs h n attrs attr_contents =
     (case n of
        None \<Rightarrow> Inr False
      | Some i \<Rightarrow>
          (case (if ntype (h i) = XML_ELEMENT_NODE \<and> properties (h i) \<noteq> [] then
                   (case attrs of
                      None \<Rightarrow> Inr False
                    | Some as \<Rightarrow> attrs_allowed (properties (h i)) as attr_contents)
                 else Inr True) of
             Inl f \<Rightarrow> Inl f
           | Inr passed \<Rightarrow>
               if \<not> passed then Inr False else only_text_children h (children (h i))))"

section \<open>The XPath evaluator (xml.c, lines 182-294)\<close>

text \<open>
  libxml2's XPath engine is not part of the repository.  What it does in one call of
  \<open>find_node_set\<close> is a parameter of the model, \<open>xpath_run\<close>:
  whether \<open>xmlXPathNewContext\<close> returned a context, whether the two registrations
  succeeded, the parser context \<open>xmlXPathNewParserContext\<close> returned (an address, or
  NULL), and the state \<open>xmlXPathEvalExpr\<close> leaves behind: the input from
  \<open>(*pctxt)->cur\<close> to the terminator, and the value stack, top first.
  The engine is assumed to return; it does not change the document.
\<close>

record xmlXPathObject =
  nodesetval :: "node_id list option"
  boolval :: bool

record xpath_run =
  context_allocated :: bool
  ns_registered :: bool
  func_registered :: bool
  parser_context :: "nat option"
  unconsumed :: string
  value_stack :: "xmlXPathObject list"

type_synonym libxml2_xpath = "string \<Rightarrow> heap \<Rightarrow> node_id option \<Rightarrow> xpath_run"

record xmlXPathContext =
  ctx_doc :: "node_id option"

text \<open>
  The slot \<open>*pctxt\<close> holds a parser context pointer (\<open>Ptr None\<close> is NULL) or, when it
  is a local variable that was never assigned, garbage.
\<close>

datatype slot_value = Garbage | Ptr "nat option"

text \<open>
  What a call does besides returning, in order: operations on
  \<open>find_nodeset_pcontext_mutex\<close>, assignments to \<open>*pctxt\<close>, the call of
  \<open>xmlXPathEvalExpr\<close>, \<open>xmlXPathFreeParserContext\<close>, and the diagnostics it prints.
\<close>

datatype diag =
    InvalidContext       \<comment> \<open>\<open>xmlXPatherror(..., XPATH_INVALID_CTXT)\<close> of \<open>CHECK_CONTEXT\<close>\<close>
  | ExprError            \<comment> \<open>\<open>xmlXPatherror(..., XPATH_EXPR_ERROR)\<close>\<close>
  | ObjectsLeft nat      \<comment> \<open>"%d object left on the stack"\<close>
  | NoContext            \<comment> \<open>"Failed to allocate XPathContext!"\<close>
  | NsWarning            \<comment> \<open>"Unable to register XSLT-Namespace prefix"\<close>
  | FuncWarning          \<comment> \<open>"Unable to register XPath extension function"\<close>
  | NoXPathObject        \<comment> \<open>"No XPathObject!"\<close>
  | NoNodeset            \<comment> \<open>"No nodeset!"\<close>
  | TakingFirst nat      \<comment> \<open>"%i matching nodes (only 1 expected). Taking first."\<close>
  | CheckFailed          \<comment> \<open>the warning of a failed \<open>g_return_val_if_fail\<close>\<close>

datatype event =
    MutexLock | MutexUnlock | SlotWrite "nat option" | EvalExpr | FreeParserContext
  | Diagnostic diag

text \<open>The condition of the macro \<open>CHECK_CONTEXT\<close>.\<close>

definition context_invalid :: "heap \<Rightarrow> xmlXPathContext option \<Rightarrow> bool" where
  "context_invalid h ctxt =
     (case ctxt of
        None \<Rightarrow> True
      | Some c \<Rightarrow> (case ctx_doc c of None \<Rightarrow> True | Some d \<Rightarrow> children (h d) = []))"

text \<open>
  The state a call works on: the slot \<open>*pctxt\<close> and the events so far.  \<open>emit\<close> adds
  an event; \<open>assign_slot p\<close> is the assignment \<open>*pctxt = p\<close>.
\<close>

record world =
  slot :: slot_value
  events :: "event list"

definition emit :: "event \<Rightarrow> world \<Rightarrow> world" where
  "emit e w = w\<lparr> events := events w @ [e] \<rparr>"

definition assign_slot :: "nat option \<Rightarrow> world \<Rightarrow> world" where
  "assign_slot p w = emit (SlotWrite p) (w\<lparr> slot := Ptr p \<rparr>)"

text \<open>
  \<open>my_xmlXPathEvalExpression\<close>, statement by statement.  \<open>CHECK_CONTEXT\<close> hands the
  present value of \<open>*pctxt\<close> to \<open>xmlXPatherror\<close>, which accepts NULL and dereferences
  anything else, and returns NULL.  Then: lock, \<open>*pctxt = xmlXPathNewParserContext(...)\<close>,
  unlock; \<open>xmlXPathEvalExpr(*pctxt)\<close> and the test \<open>*(*pctxt)->cur != 0\<close>, which
  dereference the parser context; the result, which is the top of the value stack
  unless input is left; the \<open>do ... while\<close> loop, which pops and frees what remains
  and counts it in \<open>stack\<close>; the message about objects left; lock,
  \<open>xmlXPathFreeParserContext(*pctxt)\<close>, \<open>*pctxt = NULL\<close>, unlock.
\<close>

definition my_xmlXPathEvalExpression ::
  "xpath_run \<Rightarrow> heap \<Rightarrow> xmlXPathContext option \<Rightarrow> world \<Rightarrow>
     fault + (xmlXPathObject option \<times> world)" where
  "my_xmlXPathEvalExpression run h ctxt w =
     (if context_invalid h ctxt then
        (case slot w of
           Garbage \<Rightarrow> Inl UninitRead
         | Ptr p \<Rightarrow> Inr (None, emit (Diagnostic InvalidContext) w))
      else
        (let w1 = emit MutexUnlock (assign_slot (parser_context run) (emit MutexLock w)) in
         case slot w1 of
           Ptr (Some a) \<Rightarrow>
             (let w2 = emit EvalExpr w1;
                  input_left = (unconsumed run \<noteq> []);
                  w3 = (if input_left then emit (Diagnostic ExprError) w2 else w2);
                  res = (if input_left then None
                         else (case value_stack run of [] \<Rightarrow> None | r # _ \<Rightarrow> Some r));
                  left = (if input_left then length (value_stack run)
                          else length (value_stack run) - 1);
                  w4 = (if left \<noteq> 0 \<and> res \<noteq> None
                        then emit (Diagnostic (ObjectsLeft left)) w3 else w3);
                  w5 = emit MutexUnlock
                         (assign_slot None (emit FreeParserContext (emit MutexLock w4)))
              in Inr (res, w5))
         | _ \<Rightarrow> Inl NullDeref))"

text \<open>
  \<open>find_node_set\<close>.  The argument \<open>pctxt\<close> is NULL (\<open>None\<close>: the slot is then the
  uninitialised local \<open>pctxt2\<close>) or points to the caller's slot, whose value is given.
  Every failure returns the same NULL; an empty node set does so without a diagnostic.
  The function returns the node set, the final value of the caller's slot and the
  events of the call.
\<close>

definition find_node_set ::
  "libxml2_xpath \<Rightarrow> string \<Rightarrow> heap \<Rightarrow> node_id option \<Rightarrow> slot_value option \<Rightarrow>
     fault + (node_id list option \<times> slot_value option \<times> event list)" where
  "find_node_set xp xpath h doc pctxt =
     (let run = xp xpath h doc in
      if \<not> context_allocated run then Inr (None, pctxt, [Diagnostic NoContext])
      else
        (let warn = (if \<not> ns_registered run then [Diagnostic NsWarning] else [])
                    @ (if \<not> func_registered run then [Diagnostic FuncWarning] else []);
             w = \<lparr> slot = (case pctxt of None \<Rightarrow> Garbage | Some v \<Rightarrow> v), events = warn \<rparr>
         in case my_xmlXPathEvalExpression run h (Some \<lparr> ctx_doc = doc \<rparr>) w of
              Inl f \<Rightarrow> Inl f
            | Inr (xpobj, w') \<Rightarrow>
                (let pctxt' = (case pctxt of None \<Rightarrow> None | Some v \<Rightarrow> Some (slot w')) in
                 case xpobj of
                   None \<Rightarrow> Inr (None, pctxt', events (emit (Diagnostic NoXPathObject) w'))
                 | Some obj \<Rightarrow>
                     (case nodesetval obj of
                        None \<Rightarrow> Inr (None, pctxt', events (emit (Diagnostic NoNodeset) w'))
                      | Some nodes \<Rightarrow>
                          if nodes = [] then Inr (None, pctxt', events w')
                          else Inr (Some nodes, pctxt', events w')))))"

text \<open>
  \<open>find_single_node\<close>: the first entry of the node table, with a warning when there
  are more.  (\<open>find_node_set\<close> never returns an empty table; reading its first entry
  would dereference a NULL table.)
\<close>

definition find_single_node ::
  "libxml2_xpath \<Rightarrow> string \<Rightarrow> heap \<Rightarrow> node_id option \<Rightarrow> fault + (node_id option \<times> event list)" where
  "find_single_node xp xpath h doc =
     (case find_node_set xp xpath h doc None of
        Inl f \<Rightarrow> Inl f
      | Inr (nodes, pc, tr) \<Rightarrow>
          (case nodes of
             None \<Rightarrow> Inr (None, tr)
           | Some [] \<Rightarrow> Inl NullDeref
           | Some (n # rest) \<Rightarrow>
               Inr (Some n,
                    tr @ (if length (n # rest) > 1
                          then [Diagnostic (TakingFirst (length (n # rest)))] else []))))"

section \<open>The leaf extractor (xml.c, lines 390-408)\<close>

text \<open>
  \<open>unlink_leaf_node_with_attr\<close>.  \<open>xpath\<close>, \<open>doc\<close> and \<open>can\<close> are pointers that may be
  NULL; \<open>can\<close> points to a flag whose value is given.  The function returns the node (or
  NULL), the heap, the flag and the events.
\<close>

definition unlink_leaf_node_with_attr ::
  "libxml2_xpath \<Rightarrow> string option \<Rightarrow> string list option \<Rightarrow> string option list option \<Rightarrow>
     heap \<Rightarrow> node_id option \<Rightarrow> bool option \<Rightarrow>
     fault + (node_id option \<times> heap \<times> bool option \<times> event list)" where
  "unlink_leaf_node_with_attr xp xpath attrs attr_contents h doc can =
     (case xpath of
        None \<Rightarrow> Inr (None, h, can, [Diagnostic CheckFailed])
      | Some x \<Rightarrow>
          if doc = None \<or> can = None then Inr (None, h, can, [Diagnostic CheckFailed])
          else
            (case find_single_node xp x h doc of
               Inl f \<Rightarrow> Inl f
             | Inr (None, tr) \<Rightarrow> Inr (None, h, can, tr)
             | Inr (Some n, tr) \<Rightarrow>
                 (case has_only_text_children_and_allowed_attrs h (Some n) attrs attr_contents of
                    Inl f \<Rightarrow> Inl f
                  | Inr valid \<Rightarrow>
                      if \<not> valid then Inr (None, h, Some False, tr)
                      else Inr (Some n, xmlUnlinkNode h n, can, tr))))"

section \<open>The content joiner (xml.c, lines 432-477)\<close>

text \<open>
  GLib's string functions on C strings (the bytes before the terminator).
  \<open>g_strlcat(dest, src, sz)\<close> appends as much of \<open>src\<close> as leaves the result, with its
  terminator, within \<open>sz\<close> bytes; \<open>g_strlcpy\<close> copies likewise.
\<close>

definition g_strlcat :: "string \<Rightarrow> string \<Rightarrow> nat \<Rightarrow> string" where
  "g_strlcat dest src sz = (if length dest \<ge> sz then dest else take (sz - 1) (dest @ src))"

definition g_strlcpy :: "string \<Rightarrow> string \<Rightarrow> nat \<Rightarrow> string" where
  "g_strlcpy dest src sz = (if sz = 0 then dest else take (sz - 1) src)"

text \<open>
  \<open>g_utf8_skip\<close>: GLib's table of the length of a UTF-8 sequence by its first byte.
\<close>

definition g_utf8_skip :: "char \<Rightarrow> nat" where
  "g_utf8_skip c =
     (let b = (of_char c :: nat) in
      if b < 0xC0 then 1 else if b < 0xE0 then 2 else if b < 0xF0 then 3
      else if b < 0xF8 then 4 else if b < 0xFC then 5 else if b < 0xFE then 6 else 1)"

text \<open>
  \<open>g_utf8_strncpy(dest, src, n)\<close>:
  \<open>while (n && *s) { s = g_utf8_next_char(s); n--; } strncpy(dest, src, s - src);
  dest[s - src] = 0;\<close>.
  \<open>utf8_offset n src\<close> is \<open>s - src\<close> after the loop.  A first byte that announces more
  bytes than the string has left carries \<open>s\<close> beyond the terminator: the next test of
  \<open>*s\<close>, if \<open>n\<close> is not yet 0, reads there.  \<open>strncpy\<close> then writes \<open>s - src\<close> bytes and
  the assignment one more, into a destination of \<open>sz\<close> bytes.
\<close>

fun utf8_offset :: "nat \<Rightarrow> string \<Rightarrow> fault + nat" where
  "utf8_offset 0 bs = Inr 0"
| "utf8_offset (Suc n) [] = Inr 0"
| "utf8_offset (Suc n) (b # bs) =
     (let k = g_utf8_skip b in
      if k \<le> length (b # bs) then
        (case utf8_offset n (drop k (b # bs)) of Inl f \<Rightarrow> Inl f | Inr m \<Rightarrow> Inr (k + m))
      else if n = 0 then Inr k
      else Inl ReadPastEnd)"

definition g_utf8_strncpy :: "string \<Rightarrow> nat \<Rightarrow> nat \<Rightarrow> fault + string" where
  "g_utf8_strncpy src n sz =
     (case utf8_offset n src of
        Inl f \<Rightarrow> Inl f
      | Inr k \<Rightarrow> if k + 1 > sz then Inl BufferOverflow else Inr (take k src))"

text \<open>
  The \<open>for\<close> loop of \<open>entry_orths_to_string\<close> over the contents of the matched nodes
  (\<open>None\<close>: \<open>xmlNodeGetContent\<close> returned NULL); \<open>e\<close> is the buffer of \<open>len\<close> bytes.
  The loop condition is \<open>*n2 && i<set->nodeNr\<close>: it reads the table entry at \<open>n2\<close>
  before it compares \<open>i\<close> with \<open>nodeNr\<close>.  The \<open>nodeNr\<close> entries of the table are node
  pointers, none of them NULL, as libxml2 fills it.  After the last node the condition
  reads the entry behind it: \<open>spare\<close> lists the entries libxml2 has allocated behind
  the last node (each NULL or some pointer).  When there is none, the table is full and
  that read is beyond its end; otherwise the loop ends, whatever the entry holds.
\<close>

fun orth_loop ::
  "string \<Rightarrow> string option list \<Rightarrow> nat \<Rightarrow> node_id option list \<Rightarrow> fault + string" where
  "orth_loop e [] len spare =
     (case spare of [] \<Rightarrow> Inl ReadPastEnd | entry # behind \<Rightarrow> Inr e)"
| "orth_loop e (content # rest) len spare =
     (let e1 = (if length e \<noteq> 0 then g_strlcat e '', '' len else e);
          e2 = (case content of
                  None \<Rightarrow> g_strlcat e1 ''(null)'' len
                | Some t \<Rightarrow> g_strlcat e1 t len)
      in orth_loop e2 rest len spare)"

text \<open>
  \<open>copy_node_to_doc\<close>: \<open>cp\<close> stands for libxml2's \<open>xmlNewDoc\<close>, \<open>xmlDocCopyNode\<close> and
  \<open>xmlDocSetRootElement\<close>; it returns the heap with the new document and the address of
  that document, or nothing when \<open>xmlNewDoc\<close> fails, which \<open>g_assert(doc)\<close> turns into
  an abort.
\<close>

definition copy_node_to_doc ::
  "(heap \<Rightarrow> node_id \<Rightarrow> (heap \<times> node_id) option) \<Rightarrow> heap \<Rightarrow> node_id option \<Rightarrow>
     fault + (heap \<times> node_id) option" where
  "copy_node_to_doc cp h node =
     (case node of
        None \<Rightarrow> Inr None
      | Some n \<Rightarrow> (case cp h n of None \<Rightarrow> Inl AssertFail | Some r \<Rightarrow> Inr (Some r)))"

text \<open>
  \<open>entry_orths_to_string\<close>.  \<open>gc\<close> stands for \<open>xmlNodeGetContent\<close>, \<open>gettext\<close> for the
  translation macro \<open>_\<close>, and \<open>spare\<close> for the entries of the node table behind its last
  node.  \<open>s\<close> is NULL or the present contents of the caller's buffer of \<open>len\<close> bytes.
  The function returns its result and the contents of \<open>s\<close>.
\<close>

definition entry_orths_to_string ::
  "libxml2_xpath \<Rightarrow> (heap \<Rightarrow> node_id \<Rightarrow> string option) \<Rightarrow>
   (heap \<Rightarrow> node_id \<Rightarrow> (heap \<times> node_id) option) \<Rightarrow> (string \<Rightarrow> string) \<Rightarrow>
   node_id option list \<Rightarrow>
   heap \<Rightarrow> node_id option \<Rightarrow> int \<Rightarrow> string option \<Rightarrow> fault + (bool \<times> string option)" where
  "entry_orths_to_string xp gc cp gettext spare h n len s =
     (if n = None then Inr (False, s)
      else case s of
        None \<Rightarrow> Inr (False, s)
      | Some old \<Rightarrow>
          if \<not> len > 0 then Inr (False, s)
          else
            (case copy_node_to_doc cp h n of
               Inl f \<Rightarrow> Inl f
             | Inr None \<Rightarrow> Inl NullDeref
             | Inr (Some (h', doc)) \<Rightarrow>
                 (case find_node_set xp ''/entry/form/orth'' h' (Some doc) None of
                    Inl f \<Rightarrow> Inl f
                  | Inr (nodeset, pc, tr) \<Rightarrow>
                      (case nodeset of
                         None \<Rightarrow>
                           Inr (False, Some (g_strlcpy old (gettext ''No nodes (form/orth)!'') (nat len)))
                       | Some nodes \<Rightarrow>
                           if nodes = [] then
                             Inr (False, Some (g_strlcpy old (gettext ''No nodes (form/orth)!'') (nat len)))
                           else
                             (case orth_loop [] (map (gc h') nodes) (nat len) spare of
                                Inl f \<Rightarrow> Inl f
                              | Inr e \<Rightarrow>
                                  (case g_utf8_strncpy e (nat (len div 2)) (nat len) of
                                     Inl f \<Rightarrow> Inl f
                                   | Inr r \<Rightarrow> Inr (True, Some r)))))))"

section \<open>Observations on event sequences\<close>

text \<open>
  \<open>mutex_discipline held es\<close>: in the sequence \<open>es\<close>, started with the mutex held or
  not, lock and unlock alternate, every assignment to the slot happens while the
  mutex is held, and the mutex is free at the end.
\<close>

fun mutex_discipline :: "bool \<Rightarrow> event list \<Rightarrow> bool" where
  "mutex_discipline held [] = (\<not> held)"
| "mutex_discipline held (MutexLock # es) = (\<not> held \<and> mutex_discipline True es)"
| "mutex_discipline held (MutexUnlock # es) = (held \<and> mutex_discipline False es)"
| "mutex_discipline held (SlotWrite p # es) = (held \<and> mutex_discipline held es)"
| "mutex_discipline held (e # es) = mutex_discipline held es"

text \<open>
  \<open>slot_trace v es\<close>: the values of the slot before each event of \<open>es\<close> and after the
  last, when it holds \<open>v\<close> at the start.  \<open>slot_at_eval v es\<close>: its values at the
  moments \<open>xmlXPathEvalExpr\<close> runs.
\<close>

fun slot_trace :: "slot_value \<Rightarrow> event list \<Rightarrow> slot_value list" where
  "slot_trace v [] = [v]"
| "slot_trace v (SlotWrite p # es) = v # slot_trace (Ptr p) es"
| "slot_trace v (e # es) = v # slot_trace v es"

fun slot_at_eval :: "slot_value \<Rightarrow> event list \<Rightarrow> slot_value list" where
  "slot_at_eval v [] = []"
| "slot_at_eval v (SlotWrite p # es) = slot_at_eval (Ptr p) es"
| "slot_at_eval v (EvalExpr # es) = v # slot_at_eval v es"
| "slot_at_eval v (e # es) = slot_at_eval v es"

section \<open>Reference notions for the content joiner\<close>

text \<open>
  The text a matched node contributes, and the joined text without any limit of
  length: the contributions, without the empty ones at the front, separated by a
  comma and a space.
\<close>

definition orth_text :: "string option \<Rightarrow> string" where
  "orth_text content = (case content of None \<Rightarrow> ''(null)'' | Some t \<Rightarrow> t)"

fun sep_join :: "string list \<Rightarrow> string" where
  "sep_join [] = []"
| "sep_join [t] = t"
| "sep_join (t # u # us) = t @ '', '' @ sep_join (u # us)"

text \<open>The loop of the source without its limit of length, for the proofs.\<close>

fun join_from :: "string \<Rightarrow> string option list \<Rightarrow> string" where
  "join_from acc [] = acc"
| "join_from acc (content # rest) =
     join_from ((if acc = [] then acc else acc @ '', '') @ orth_text content) rest"

definition joined_orths :: "string option list \<Rightarrow> string" where
  "joined_orths contents = sep_join (dropWhile (\<lambda>t. t = []) (map orth_text contents))"

text \<open>
  The characters of a string as \<open>g_utf8_skip\<close> delimits them: each begins with a byte
  that announces its length.  Only the last one can be shorter than announced;
  \<open>utf8_whole s\<close> says that none is.
\<close>

fun utf8_chars :: "string \<Rightarrow> string list" where
  "utf8_chars [] = []"
| "utf8_chars (b # bs) =
     (b # take (g_utf8_skip b - 1) bs) # utf8_chars (drop (g_utf8_skip b - 1) bs)"

definition utf8_whole :: "string \<Rightarrow> bool" where
  "utf8_whole s = list_all (\<lambda>c. length c = g_utf8_skip (hd c)) (utf8_chars s)"

section \<open>A sample document and a sample engine\<close>

text \<open>
  The document
  \<open><entry><form><orth type="n">a</orth><orth/><orth>c</orth></form>
  <gramGrp><pos type="v"><b/></pos></gramGrp></entry>\<close>
  at the addresses 0 (the document), 1 (entry), 2 (form), 3, 4, 5 (the three orth
  elements), 6 and 7 (the texts a and c), 8 (gramGrp), 9 (pos) and 10 (b); and a
  second document \<open><entry/>\<close> at the addresses 11 (the document) and 12 (entry).
\<close>

definition element :: "xmlAttr list \<Rightarrow> node_id list \<Rightarrow> node_id option \<Rightarrow> xmlNode" where
  "element props kids par =
     \<lparr> ntype = XML_ELEMENT_NODE, properties = props, children = kids, parent = par \<rparr>"

definition text_node :: "node_id option \<Rightarrow> xmlNode" where
  "text_node par = \<lparr> ntype = XML_TEXT_NODE, properties = [], children = [], parent = par \<rparr>"

definition attribute :: "string \<Rightarrow> string \<Rightarrow> xmlAttr" where
  "attribute nm v = \<lparr> attr_name = Some nm, attr_value = Some v \<rparr>"

definition ex_heap :: heap where
  "ex_heap =
     (\<lambda>i. text_node None)
     (0 := \<lparr> ntype = XML_DOCUMENT_NODE, properties = [], children = [1], parent = None \<rparr>,
      1 := element [] [2, 8] (Some 0),
      2 := element [] [3, 4, 5] (Some 1),
      3 := element [attribute ''type'' ''n''] [6] (Some 2),
      4 := element [] [] (Some 2),
      5 := element [] [7] (Some 2),
      6 := text_node (Some 3),
      7 := text_node (Some 5),
      8 := element [] [9] (Some 1),
      9 := element [attribute ''type'' ''v''] [10] (Some 8),
      10 := element [] [] (Some 9),
      11 := \<lparr> ntype = XML_DOCUMENT_NODE, properties = [], children = [12], parent = None \<rparr>,
      12 := element [] [] (Some 11))"

text \<open>
  What libxml2 does on the first document for the expressions used below: a node set
  in document order, a boolean, an empty node set, and an expression that does not
  parse.  On the second document nothing matches.
\<close>

definition node_set_run :: "node_id list \<Rightarrow> xpath_run" where
  "node_set_run ns =
     \<lparr> context_allocated = True, ns_registered = True, func_registered = True,
       parser_context = Some 4096, unconsumed = [],
       value_stack = [\<lparr> nodesetval = Some ns, boolval = False \<rparr>] \<rparr>"

definition ex_xp :: libxml2_xpath where
  "ex_xp xpath h doc =
     (if doc = Some 11 then node_set_run []
      else if xpath = ''/entry/form/orth'' then node_set_run [3, 4, 5]
      else if xpath = ''//orth[@type]'' then node_set_run [3]
      else if xpath = ''//pos'' then node_set_run [9]
      else if xpath = ''//sense'' then node_set_run []
      else if xpath = ''true()'' then
        (node_set_run []) \<lparr> value_stack := [\<lparr> nodesetval = None, boolval = True \<rparr>] \<rparr>
      else (node_set_run []) \<lparr> unconsumed := ''['', value_stack := [] \<rparr>)"

text \<open>
  \<open>xmlNodeGetContent\<close> on the three orth elements: the second one is empty and yields
  the empty string.  \<open>ex_gc_null\<close> differs in that it yields NULL there.
  \<open>ex_cp\<close> takes the document a node is in for its copy.
\<close>

definition ex_gc :: "heap \<Rightarrow> node_id \<Rightarrow> string option" where
  "ex_gc h n = (if n = 3 then Some ''a'' else if n = 5 then Some ''c'' else Some [])"

definition ex_gc_null :: "heap \<Rightarrow> node_id \<Rightarrow> string option" where
  "ex_gc_null h n = (if n = 3 then Some ''a'' else if n = 5 then Some ''c'' else None)"

text \<open>An engine stand-in for contents of two euro signs (three bytes each).\<close>

definition ex_gc_euro :: "heap \<Rightarrow> node_id \<Rightarrow> string option" where
  "ex_gc_euro h n = Some [CHR 0xE2, CHR 0x82, CHR 0xAC, CHR 0xE2, CHR 0x82, CHR 0xAC]"

definition ex_cp :: "heap \<Rightarrow> node_id \<Rightarrow> (heap \<times> node_id) option" where
  "ex_cp h n = Some (h, if n = 12 then 11 else 0)"

definition no_gettext :: "string \<Rightarrow> string" where
  "no_gettext m = m"

text \<open>
  A node table with room behind its last node: libxml2 allocates ten zeroed entries
  for a new node set, so that seven NULL entries follow three nodes.
\<close>

definition ex_spare :: "node_id option list" where
  "ex_spare = replicate 7 None"

text \<open>
  The sample heap with a third document, at the address 13, that has no children (a
  document without a root element).
\<close>

definition ex_heap_empty_doc :: heap where
  "ex_heap_empty_doc =
     ex_heap(13 := \<lparr> ntype = XML_DOCUMENT_NODE, properties = [], children = [],
                         parent = None \<rparr>)"

text \<open>The events of a call of \<open>find_node_set\<close> in which nothing goes wrong.\<close>

definition quiet_trace :: "event list" where
  "quiet_trace = [MutexLock, SlotWrite (Some 4096), MutexUnlock, EvalExpr,
                  MutexLock, FreeParserContext, SlotWrite None, MutexUnlock]"

section \<open>Properties of the bracket scanner\<close>

subsection \<open>The stack automaton decides the grammar\<close>

lemma peak_ge: "d \<le> peak d s"
  by (cases s) simp_all

lemma spec_has_unbalanced_brackets_scan:
  "length st \<le> 100 \<Longrightarrow> spec_has_unbalanced_brackets st s = (\<not> scan st s \<or> 100 < peak (length st) s)"
proof (induction s arbitrary: st)
  case Nil
  then show ?case by auto
next
  case (Cons c cs)
  show ?case
  proof (cases "is_open c")
    case True
    show ?thesis
    proof (cases "length st \<ge> 100")
      case full: True
      with Cons.prems have "length st = 100" by simp
      moreover have "Suc 100 \<le> peak (Suc 100) cs" by (rule peak_ge)
      ultimately show ?thesis using True by (simp add: spec_step_def)
    next
      case False
      then have "length (c # st) \<le> 100" by simp
      from Cons.IH[OF this] False True show ?thesis
        by (simp add: spec_step_def max_def)
    qed
  next
    case nopen: False
    show ?thesis
    proof (cases "is_close c")
      case True
      show ?thesis
      proof (cases st)
        case Nil
        then show ?thesis using nopen True by (simp add: spec_step_def)
      next
        case (Cons t st')
        then have "length st' \<le> 100" using Cons.prems by simp
        from Cons.IH[OF this] Cons nopen True Cons.prems show ?thesis
          by (auto simp add: spec_step_def max_def)
      qed
    next
      case False
      from Cons.IH[OF Cons.prems] nopen False Cons.prems show ?thesis
        by (auto simp add: spec_step_def max_def)
    qed
  qed
qed

lemma balanced_scan_append:
  "balanced s \<Longrightarrow> scan st (s @ t) = scan st t"
  by (induction s arbitrary: st t rule: balanced.induct)
     (simp_all add: is_open_def is_close_def opener_of_def)

lemma balanced_insert:
  "balanced w \<Longrightarrow> balanced x \<Longrightarrow> w = u @ v \<Longrightarrow> balanced (u @ x @ v)"
proof (induction w arbitrary: u v rule: balanced.induct)
  case bal_empty
  then show ?case by simp
next
  case (bal_other c)
  from bal_other(4) have "u = [] \<and> v = [c] \<or> u = [c] \<and> v = []"
    by (cases u) auto
  moreover have "balanced [c]" using bal_other(1,2) by (rule balanced.bal_other)
  ultimately show ?case using bal_other(3) balanced.bal_seq[of x "[c]"] balanced.bal_seq[of "[c]" x]
    by auto
next
  case (bal_paren w)
  have whole: "balanced (CHR ''('' # w @ [CHR '')''])" using bal_paren(1) by (rule balanced.bal_paren)
  show ?case
  proof (cases u)
    case Nil
    then show ?thesis using bal_paren(4) whole bal_paren(3) balanced.bal_seq by fastforce
  next
    case (Cons a u')
    then have a: "a = CHR ''(''" and rest: "w @ [CHR '')''] = u' @ v" using bal_paren(4) by auto
    show ?thesis
    proof (cases v rule: rev_cases)
      case Nil
      then show ?thesis using bal_paren(4) whole bal_paren(3) balanced.bal_seq[of "u" x] by auto
    next
      case (snoc v' b)
      then have "w = u' @ v'" and "b = CHR '')''" using rest by auto
      from bal_paren(2)[OF bal_paren(3) this(1)] have "balanced (CHR ''('' # (u' @ x @ v') @ [CHR '')''])"
        by (rule balanced.bal_paren)
      then show ?thesis using Cons a snoc \<open>b = CHR '')''\<close> by simp
    qed
  qed
next
  case (bal_square w)
  have whole: "balanced (CHR ''['' # w @ [CHR '']''])" using bal_square(1) by (rule balanced.bal_square)
  show ?case
  proof (cases u)
    case Nil
    then show ?thesis using bal_square(4) whole bal_square(3) balanced.bal_seq by fastforce
  next
    case (Cons a u')
    then have a: "a = CHR ''[''" and rest: "w @ [CHR '']''] = u' @ v" using bal_square(4) by auto
    show ?thesis
    proof (cases v rule: rev_cases)
      case Nil
      then show ?thesis using bal_square(4) whole bal_square(3) balanced.bal_seq[of "u" x] by auto
    next
      case (snoc v' b)
      then have "w = u' @ v'" and "b = CHR '']''" using rest by auto
      from bal_square(2)[OF bal_square(3) this(1)] have "balanced (CHR ''['' # (u' @ x @ v') @ [CHR '']''])"
        by (rule balanced.bal_square)
      then show ?thesis using Cons a snoc \<open>b = CHR '']''\<close> by simp
    qed
  qed
next
  case (bal_curly w)
  have whole: "balanced (CHR ''{'' # w @ [CHR ''}''])" using bal_curly(1) by (rule balanced.bal_curly)
  show ?case
  proof (cases u)
    case Nil
    then show ?thesis using bal_curly(4) whole bal_curly(3) balanced.bal_seq by fastforce
  next
    case (Cons a u')
    then have a: "a = CHR ''{''" and rest: "w @ [CHR ''}''] = u' @ v" using bal_curly(4) by auto
    show ?thesis
    proof (cases v rule: rev_cases)
      case Nil
      then show ?thesis using bal_curly(4) whole bal_curly(3) balanced.bal_seq[of "u" x] by auto
    next
      case (snoc v' b)
      then have "w = u' @ v'" and "b = CHR ''}''" using rest by auto
      from bal_curly(2)[OF bal_curly(3) this(1)] have "balanced (CHR ''{'' # (u' @ x @ v') @ [CHR ''}''])"
        by (rule balanced.bal_curly)
      then show ?thesis using Cons a snoc \<open>b = CHR ''}''\<close> by simp
    qed
  qed
next
  case (bal_seq a b)
  from bal_seq(6) consider us where "a = u @ us" "us @ b = v" | us where "a @ us = u" "b = us @ v"
    by (auto simp add: append_eq_append_conv2)
  then show ?case
  proof cases
    case 1
    from bal_seq(3)[OF bal_seq(5) 1(1)] bal_seq(2) have "balanced ((u @ x @ us) @ b)"
      by (rule balanced.bal_seq)
    then show ?thesis using 1 by auto
  next
    case 2
    from bal_seq(1) bal_seq(4)[OF bal_seq(5) 2(2)] have "balanced (a @ (us @ x @ v))"
      by (rule balanced.bal_seq)
    then show ?thesis using 2 by auto
  qed
qed

lemma scan_balanced: "scan st s \<Longrightarrow> balanced (rev st @ s)"
proof (induction s arbitrary: st)
  case Nil
  then show ?case by (simp add: balanced.bal_empty)
next
  case (Cons c cs)
  show ?case
  proof (cases "is_open c")
    case True
    with Cons.prems have "scan (c # st) cs" by simp
    from Cons.IH[OF this] show ?thesis by simp
  next
    case nopen: False
    show ?thesis
    proof (cases "is_close c")
      case True
      with nopen Cons.prems obtain st' where st: "st = opener_of c # st'" and sc: "scan st' cs"
        by (cases st) auto
      have "balanced [opener_of c, c]"
        using True balanced.bal_paren[OF balanced.bal_empty] balanced.bal_square[OF balanced.bal_empty]
          balanced.bal_curly[OF balanced.bal_empty]
        by (auto simp add: is_close_def opener_of_def)
      from balanced_insert[OF Cons.IH[OF sc] this refl] show ?thesis using st by simp
    next
      case False
      with nopen Cons.prems have sc: "scan st cs" by simp
      have "balanced [c]" using nopen False by (rule balanced.bal_other)
      from balanced_insert[OF Cons.IH[OF sc] this refl] show ?thesis by simp
    qed
  qed
qed

lemma scan_iff_balanced: "scan [] s = balanced s"
  using scan_balanced[of "[]" s] balanced_scan_append[of s "[]" "[]"] by auto


subsection \<open>The array of the source implements the stack of the specification\<close>

lemma stack_contents_push:
  assumes "0 < stackend s" "stackend s \<le> 100"
  shows "stack_contents (snd (cub_push b s)) = b # stack_contents s"
proof -
  from assms have "[stackend s - 1..<100] = (stackend s - 1) # [stackend s..<100]"
    by (simp add: upt_conv_Cons)
  with assms show ?thesis
    by (simp add: stack_contents_def cub_push_def)
qed

lemma stack_contents_pop:
  "stackend s < 100 \<Longrightarrow>
   stack_contents s = fst (cub_pop s) # stack_contents (snd (cub_pop s))"
  by (simp add: stack_contents_def cub_pop_def upt_conv_Cons)

lemma stack_contents_empty: "stackend s \<ge> 100 \<Longrightarrow> stack_contents s = []"
  by (simp add: stack_contents_def)

lemma stack_contents_length: "stackend s \<le> 100 \<Longrightarrow> length (stack_contents s) = 100 - stackend s"
  by (simp add: stack_contents_def)

lemma cub_switch_open:
  assumes "cub_inv s" "is_open c"
  shows "case cub_switch c s of
           None \<Rightarrow> spec_step c (stack_contents s) = None
         | Some s' \<Rightarrow> spec_step c (stack_contents s) = Some (stack_contents s') \<and> cub_inv s'"
proof (cases "stackend s = 0")
  case True
  with assms show ?thesis
    by (simp add: cub_switch_def spec_step_def cub_push_def is_open_def cub_inv_def stack_contents_length)
next
  case False
  with assms have pos: "0 < stackend s" and le: "stackend s \<le> 100" by (simp_all add: cub_inv_def)
  have sw: "cub_switch c s = Some (snd (cub_push c s))"
    using assms(2) False by (auto simp add: cub_switch_def cub_push_def is_open_def)
  have "stackend (snd (cub_push c s)) \<le> 100" using pos le by (simp add: cub_push_def)
  with stack_contents_push[OF pos le, of c] assms pos le show ?thesis
    by (simp add: sw spec_step_def cub_inv_def stack_contents_length)
qed

lemma cub_switch_close:
  assumes "cub_inv s" "is_close c"
  shows "case cub_switch c s of
           None \<Rightarrow> spec_step c (stack_contents s) = None
         | Some s' \<Rightarrow> spec_step c (stack_contents s) = Some (stack_contents s') \<and> cub_inv s'"
proof (cases "stackend s \<ge> 100")
  case True
  have "cub_switch c s = None"
    using assms(2) True by (auto simp add: cub_switch_def cub_pop_def is_close_def)
  then show ?thesis using True assms(2)
    by (auto simp add: spec_step_def stack_contents_empty is_open_def is_close_def)
next
  case False
  then have lt: "stackend s < 100" by simp
  note sc = stack_contents_pop[OF lt]
  have nopen: "\<not> is_open c" using assms(2) by (auto simp add: is_open_def is_close_def)
  have sw: "cub_switch c s = (if fst (cub_pop s) \<noteq> opener_of c then None else Some (snd (cub_pop s)))"
    using assms(2) by (auto simp add: cub_switch_def is_close_def opener_of_def split: prod.splits)
  have inv': "cub_inv (snd (cub_pop s))"
    using assms(1) lt sc by (auto simp add: cub_inv_def cub_pop_def)
  have bs: "spec_step c (stack_contents s) =
              (if fst (cub_pop s) \<noteq> opener_of c then None else Some (stack_contents (snd (cub_pop s))))"
    using nopen assms(2) by (subst sc) (simp add: spec_step_def)
  show ?thesis using sw bs inv' by simp
qed

lemma cub_switch_other:
  assumes "\<not> is_open c" "\<not> is_close c"
  shows "cub_switch c s = Some s" and "spec_step c st = Some st"
  using assms by (auto simp add: cub_switch_def spec_step_def is_open_def is_close_def)

lemma cub_switch_refines:
  assumes "cub_inv s"
  shows "case cub_switch c s of
           None \<Rightarrow> spec_step c (stack_contents s) = None
         | Some s' \<Rightarrow> spec_step c (stack_contents s) = Some (stack_contents s') \<and> cub_inv s'"
proof -
  consider "is_open c" | "is_close c" | "\<not> is_open c" "\<not> is_close c" by blast
  then show ?thesis
  proof cases
    case 1
    with assms show ?thesis by (rule cub_switch_open)
  next
    case 2
    with assms show ?thesis by (rule cub_switch_close)
  next
    case 3
    then show ?thesis using assms by (simp add: cub_switch_other)
  qed
qed

lemma final_pop: "cub_inv s \<Longrightarrow> (fst (cub_pop s) \<noteq> CHR ''E'') = (stack_contents s \<noteq> [])"
proof (cases "stackend s \<ge> 100")
  case True
  then show ?thesis by (simp add: cub_pop_def stack_contents_empty)
next
  case False
  assume inv: "cub_inv s"
  from False have lt: "stackend s < 100" by simp
  from inv have "list_all is_open (stack_contents s)" by (simp add: cub_inv_def)
  then have "is_open (fst (cub_pop s))"
    by (subst (asm) stack_contents_pop[OF lt]) simp
  then have "fst (cub_pop s) \<noteq> CHR ''E''" by (auto simp add: is_open_def)
  moreover have "stack_contents s \<noteq> []"
    by (subst stack_contents_pop[OF lt]) simp
  ultimately show ?thesis by simp
qed

lemma cub_loop_refines:
  "cub_inv s \<Longrightarrow> w \<noteq> [] \<Longrightarrow> NUL \<notin> set w \<Longrightarrow>
   cub_loop s (w @ NUL # rest) = Inr (spec_has_unbalanced_brackets (stack_contents s) w)"
proof (induction w arbitrary: s)
  case Nil
  then show ?case by simp
next
  case (Cons c cs)
  note ref = cub_switch_refines[OF Cons.prems(1), of c]
  show ?case
  proof (cases "cub_switch c s")
    case None
    with ref show ?thesis by simp
  next
    case (Some s')
    with ref have b: "spec_step c (stack_contents s) = Some (stack_contents s')" and inv': "cub_inv s'"
      by simp_all
    show ?thesis
    proof (cases cs)
      case Nil
      then show ?thesis using Some b final_pop[OF inv'] by simp
    next
      case (Cons d ds)
      then have "d \<noteq> NUL" and "cs \<noteq> []" and "NUL \<notin> set cs" using Cons.prems(3) by auto
      from Cons.IH[OF inv' this(2,3)] Some b Cons \<open>d \<noteq> NUL\<close> show ?thesis by simp
    qed
  qed
qed

lemma cub_init_inv: "cub_inv (cub_init junk)" and cub_init_contents: "stack_contents (cub_init junk) = []"
  by (simp_all add: cub_inv_def cub_init_def stack_contents_def)

lemma cub_characterisation:
  assumes "w \<noteq> []" "NUL \<notin> set w"
  shows "contains_unbalanced_braces junk (Some (w @ NUL # rest)) =
           Inr (\<not> (balanced w \<and> nesting w \<le> 100))"
  using cub_loop_refines[OF cub_init_inv assms, of junk rest]
    spec_has_unbalanced_brackets_scan[of "[]" w] scan_iff_balanced[of w]
  by (auto simp add: contains_unbalanced_braces_def cub_init_contents nesting_def)

lemma cub_refines_spec:
  assumes "w \<noteq> []" "NUL \<notin> set w"
  shows "contains_unbalanced_braces junk (Some (w @ NUL # rest)) =
           Inr (spec_has_unbalanced_brackets [] w)"
  using cub_loop_refines[OF cub_init_inv assms, of junk rest]
  by (simp add: contains_unbalanced_braces_def cub_init_contents)

lemma spec_characterisation:
  "spec_has_unbalanced_brackets [] w = (\<not> (balanced w \<and> nesting w \<le> 100))"
  using spec_has_unbalanced_brackets_scan[of "[]" w] scan_iff_balanced[of w]
  by (auto simp add: nesting_def)

lemma deep_nest_balanced: "balanced (replicate n (CHR ''('') @ replicate n (CHR '')''))"
proof (induction n)
  case 0
  show ?case by (simp add: balanced.bal_empty)
next
  case (Suc n)
  have "replicate (Suc n) (CHR ''('') @ replicate (Suc n) (CHR '')'') =
          CHR ''('' # (replicate n (CHR ''('') @ replicate n (CHR '')'')) @ [CHR '')'']"
    by (simp add: replicate_append_same)
  with balanced.bal_paren[OF Suc] show ?case by simp
qed

subsection \<open>Claims C2 and C8\<close>

text \<open>
  Claim C2, as amended.  For every non-empty string \<open>w\<close> (free of NUL, followed by its
  terminator and by any memory \<open>rest\<close>) and whatever the uninitialised stack array holds,
  \<open>contains_unbalanced_braces\<close> returns what the automaton of the specification computes
  with its stack of capacity 100: it pushes on each opener, pops on each closer, and
  returns TRUE at once on a wrong or missing opener or on a push onto a full stack, and
  TRUE at the end if the stack is not empty.  It returns FALSE exactly for the strings
  whose brackets are all closed in the order opened and are never nested more than 100
  deep.
\<close>

theorem C2_scanner_is_bounded_stack_automaton:
  assumes "w \<noteq> []" and "NUL \<notin> set w"
  shows "contains_unbalanced_braces junk (Some (w @ NUL # rest)) =
           Inr (spec_has_unbalanced_brackets [] w)
         \<and> spec_has_unbalanced_brackets [] w = (\<not> (balanced w \<and> nesting w \<le> 100))"
  using cub_refines_spec[OF assms] spec_characterisation by simp

text \<open>
  The theorem at the specification's example \<open>(a[b]{c)}\<close>, whose brackets close in
  the wrong order: the source returns TRUE, and the string is not balanced.
\<close>

theorem C2_witness_wrong_order:
  "''(a[b]{c)}'' \<noteq> [] \<and> NUL \<notin> set ''(a[b]{c)}''
   \<and> contains_unbalanced_braces zero_junk (Some (''(a[b]{c)}'' @ NUL # [])) = Inr True
   \<and> \<not> balanced ''(a[b]{c)}''"
proof -
  have ne: "''(a[b]{c)}'' \<noteq> []" by simp
  have nul: "NUL \<notin> set ''(a[b]{c)}''" by (simp add: NUL_def)
  have sp: "spec_has_unbalanced_brackets [] ''(a[b]{c)}'' = True" by code_simp
  have dp: "nesting ''(a[b]{c)}'' \<le> 100" by code_simp
  from C2_scanner_is_bounded_stack_automaton[OF ne nul, of zero_junk "[]"] sp dp ne nul
  show ?thesis by simp
qed

text \<open>
  Against claim C2 as stated ("it returns false for every string whose brackets are
  all closed in the order opened"): 101 opening parentheses followed by 101 closing
  ones are balanced, and the source returns TRUE, because the push number 101 finds the
  stack full.
\<close>

theorem C2_counterexample_depth_101:
  "balanced (replicate 101 (CHR ''('') @ replicate 101 (CHR '')''))
   \<and> contains_unbalanced_braces zero_junk
        (Some ((replicate 101 (CHR ''('') @ replicate 101 (CHR '')'')) @ [NUL])) = Inr True"
proof -
  have "contains_unbalanced_braces zero_junk
          (Some ((replicate 101 (CHR ''('') @ replicate 101 (CHR '')'')) @ [NUL])) = Inr True"
    by code_simp
  then show ?thesis using deep_nest_balanced[of 101] by simp
qed

text \<open>
  Claim C8 (the source departs from it).  On the NULL pointer the function returns
  FALSE.  On the empty string it does not: the \<open>do ... while\<close> loop steps over the
  terminator before it tests anything and reads the byte behind it.  When the
  terminator is the last byte of the memory, that read is out of bounds; when a \<open>(\<close>
  and a zero byte happen to follow, the function returns TRUE.
\<close>

theorem C8_empty_string_reads_behind_terminator:
  "contains_unbalanced_braces junk None = Inr False
   \<and> contains_unbalanced_braces junk (Some [NUL]) = Inl ReadPastEnd
   \<and> contains_unbalanced_braces junk (Some [NUL, CHR ''('', NUL]) = Inr True"
  by (simp add: contains_unbalanced_braces_def cub_init_def cub_switch_def cub_push_def
      cub_pop_def NUL_def)

subsection \<open>An unmatched closer is always found\<close>

lemma balanced_counts:
  "balanced w \<Longrightarrow> length (filter is_open w) = length (filter is_close w)"
  by (induction w rule: balanced.induct) (simp_all add: is_open_def is_close_def)

lemma closer_breaks_balance:
  assumes "balanced (u @ v)" and "is_close c"
  shows "\<not> balanced (u @ c # v)"
proof
  assume "balanced (u @ c # v)"
  from balanced_counts[OF this] balanced_counts[OF assms(1)] assms(2)
  show False by (auto simp add: is_open_def is_close_def)
qed

text \<open>
  A closing bracket put anywhere into a balanced string makes the scanner return
  TRUE (section 8 of the specification).
\<close>

theorem unmatched_closer_is_detected:
  assumes "balanced (u @ v)" and "is_close c" and "NUL \<notin> set (u @ v)"
  shows "contains_unbalanced_braces junk (Some ((u @ c # v) @ NUL # rest)) = Inr True"
proof -
  have "c \<noteq> NUL" using assms(2) by (auto simp add: is_close_def NUL_def)
  with assms(3) have nul: "NUL \<notin> set (u @ c # v)" by auto
  have ne: "u @ c # v \<noteq> []" by simp
  from cub_characterisation[OF ne nul, of junk rest] closer_breaks_balance[OF assms(1,2)]
  show ?thesis by simp
qed

text \<open>The theorem at \<open>(a)[b]\<close> with a \<open>]\<close> put in the middle.\<close>

theorem unmatched_closer_witness:
  "balanced (''(a)'' @ ''[b]'') \<and> is_close (CHR '']'') \<and> NUL \<notin> set (''(a)'' @ ''[b]'')
   \<and> contains_unbalanced_braces zero_junk (Some (''(a)][b]'' @ [NUL])) = Inr True"
proof -
  have b: "balanced (''(a)'' @ ''[b]'')"
  proof -
    have "scan [] (''(a)'' @ ''[b]'')" by code_simp
    then show ?thesis by (simp only: scan_iff_balanced)
  qed
  have c: "is_close (CHR '']'')" by (simp add: is_close_def)
  have n: "NUL \<notin> set (''(a)'' @ ''[b]'')" by (simp add: NUL_def)
  from unmatched_closer_is_detected[OF b c n, of zero_junk "[]"] b c n show ?thesis by simp
qed

section \<open>Properties of the extractor\<close>

subsection \<open>The steps of \<open>unlink_leaf_node_with_attr\<close>\<close>

lemma find_single_node_none:
  "find_node_set xp x h doc None = Inr (None, p, tr) \<Longrightarrow>
   find_single_node xp x h doc = Inr (None, tr)"
  by (simp add: find_single_node_def)

lemma find_single_node_first:
  "find_node_set xp x h doc None = Inr (Some (n # rest), p, tr) \<Longrightarrow>
   find_single_node xp x h doc =
     Inr (Some n, tr @ (if rest \<noteq> [] then [Diagnostic (TakingFirst (Suc (length rest)))] else []))"
  by (simp add: find_single_node_def)

lemma unlink_not_found:
  "find_single_node xp x h (Some d) = Inr (None, tr) \<Longrightarrow>
   unlink_leaf_node_with_attr xp (Some x) attrs cont h (Some d) (Some b) = Inr (None, h, Some b, tr)"
  by (simp add: unlink_leaf_node_with_attr_def)

lemma unlink_found:
  "find_single_node xp x h (Some d) = Inr (Some n, tr) \<Longrightarrow>
   unlink_leaf_node_with_attr xp (Some x) attrs cont h (Some d) (Some b) =
     (case has_only_text_children_and_allowed_attrs h (Some n) attrs cont of
        Inl f \<Rightarrow> Inl f
      | Inr valid \<Rightarrow>
          if valid then Inr (Some n, xmlUnlinkNode h n, Some b, tr)
          else Inr (None, h, Some False, tr))"
  by (simp add: unlink_leaf_node_with_attr_def split: sum.splits)

lemma unlink_result_cases:
  assumes "unlink_leaf_node_with_attr xp xpath attrs cont h doc can = Inr (r, h', can', tr)"
  shows "(r = None \<and> h' = h \<and> can' = can)
       \<or> (\<exists>x n tr0. xpath = Some x \<and> find_single_node xp x h doc = Inr (Some n, tr0)
             \<and> has_only_text_children_and_allowed_attrs h (Some n) attrs cont = Inr False
             \<and> r = None \<and> h' = h \<and> can' = Some False)
       \<or> (\<exists>x n tr0. xpath = Some x \<and> find_single_node xp x h doc = Inr (Some n, tr0)
             \<and> has_only_text_children_and_allowed_attrs h (Some n) attrs cont = Inr True
             \<and> r = Some n \<and> h' = xmlUnlinkNode h n \<and> can' = can)"
  using assms
  by (auto simp add: unlink_leaf_node_with_attr_def split: option.splits sum.splits if_splits)

subsection \<open>What \<open>xmlUnlinkNode\<close> changes\<close>

lemma unlink_children:
  "children (xmlUnlinkNode h n q) =
     (if parent (h n) = Some q then remove1 n (children (h q)) else children (h q))"
  by (auto simp add: xmlUnlinkNode_def Let_def split: option.splits)

lemma unlink_parent:
  "parent (xmlUnlinkNode h n q) = (if q = n then None else parent (h q))"
  by (auto simp add: xmlUnlinkNode_def Let_def split: option.splits)

lemma unlink_ntype: "ntype (xmlUnlinkNode h n q) = ntype (h q)"
  by (auto simp add: xmlUnlinkNode_def Let_def split: option.splits)

lemma unlink_properties: "properties (xmlUnlinkNode h n q) = properties (h q)"
  by (auto simp add: xmlUnlinkNode_def Let_def split: option.splits)

lemma filter_remove1_same: "filter (\<lambda>c. c \<noteq> n) (remove1 n xs) = filter (\<lambda>c. c \<noteq> n) xs"
  by (induction xs) auto

lemma unlink_keeps_others:
  "filter (\<lambda>c. c \<noteq> n) (children (xmlUnlinkNode h n q)) = filter (\<lambda>c. c \<noteq> n) (children (h q))"
  by (simp add: unlink_children filter_remove1_same)

lemma remove1_nth:
  "i < length xs \<Longrightarrow> xs ! i = n \<Longrightarrow> n \<notin> set (take i xs) \<Longrightarrow>
   remove1 n xs = take i xs @ drop (Suc i) xs"
proof (induction xs arbitrary: i)
  case Nil
  then show ?case by simp
next
  case (Cons x xs)
  show ?case
  proof (cases i)
    case 0
    with Cons.prems show ?thesis by simp
  next
    case (Suc j)
    with Cons.prems have "x \<noteq> n" and "j < length xs" and "xs ! j = n" and "n \<notin> set (take j xs)"
      by auto
    with Cons.IH[of j] Suc show ?thesis by simp
  qed
qed

lemma relink_unlink:
  assumes par: "parent (h n) = Some p" and ne: "p \<noteq> n"
    and i: "i < length (children (h p))" and at: "children (h p) ! i = n"
    and first: "n \<notin> set (take i (children (h p)))"
  shows "relink_at (xmlUnlinkNode h n) p i n = h"
proof -
  let ?cs = "children (h p)"
  have rm: "remove1 n ?cs = take i ?cs @ drop (Suc i) ?cs"
    using i at first by (rule remove1_nth)
  have len: "length (take i ?cs) = i" using i by simp
  have "take i (remove1 n ?cs) @ n # drop i (remove1 n ?cs) = take i ?cs @ n # drop (Suc i) ?cs"
    using len by (simp add: rm)
  also have "\<dots> = ?cs" using at id_take_nth_drop[OF i] by simp
  finally have restored: "take i (remove1 n ?cs) @ n # drop i (remove1 n ?cs) = ?cs" .
  have "relink_at (xmlUnlinkNode h n) p i n q = h q" for q
  proof -
    consider "q = n" | "q = p" | "q \<noteq> n" "q \<noteq> p" by blast
    then show ?thesis
    proof cases
      case 1
      then show ?thesis using par ne
        by (simp add: relink_at_def xmlUnlinkNode_def Let_def)
    next
      case 2
      then show ?thesis using par ne restored
        by (simp add: relink_at_def xmlUnlinkNode_def Let_def)
    next
      case 3
      then show ?thesis using par
        by (simp add: relink_at_def xmlUnlinkNode_def Let_def)
    qed
  qed
  then show ?thesis by (rule ext)
qed

subsection \<open>The sample document\<close>

lemmas ex_defs = ex_heap_def element_def attribute_def text_node_def ex_xp_def node_set_run_def
  quiet_trace_def

lemma ex_context_valid: "\<not> context_invalid ex_heap (Some \<lparr> ctx_doc = Some 0 \<rparr>)"
  by (simp add: context_invalid_def ex_defs)

lemma ex_find_orths:
  "find_node_set ex_xp ''/entry/form/orth'' ex_heap (Some 0) None = Inr (Some [3, 4, 5], None, quiet_trace)"
  using ex_context_valid
  by (simp add: find_node_set_def my_xmlXPathEvalExpression_def emit_def assign_slot_def ex_xp_def node_set_run_def quiet_trace_def)

lemma ex_find_typed_orth:
  "find_node_set ex_xp ''//orth[@type]'' ex_heap (Some 0) None = Inr (Some [3], None, quiet_trace)"
  using ex_context_valid
  by (simp add: find_node_set_def my_xmlXPathEvalExpression_def emit_def assign_slot_def ex_xp_def node_set_run_def quiet_trace_def)

lemma ex_find_pos:
  "find_node_set ex_xp ''//pos'' ex_heap (Some 0) None = Inr (Some [9], None, quiet_trace)"
  using ex_context_valid
  by (simp add: find_node_set_def my_xmlXPathEvalExpression_def emit_def assign_slot_def ex_xp_def node_set_run_def quiet_trace_def)

lemma ex_find_sense:
  "find_node_set ex_xp ''//sense'' ex_heap (Some 0) None = Inr (None, None, quiet_trace)"
  using ex_context_valid
  by (simp add: find_node_set_def my_xmlXPathEvalExpression_def emit_def assign_slot_def ex_xp_def node_set_run_def quiet_trace_def)



lemma ex_valid_3:
  "has_only_text_children_and_allowed_attrs ex_heap (Some 3) (Some [''type'']) (Some [Some ''n'']) = Inr True"
  by (simp add: has_only_text_children_and_allowed_attrs_def xmlNodeIsText_def ex_defs)

lemma ex_invalid_9:
  "has_only_text_children_and_allowed_attrs ex_heap (Some 9) (Some [''type'']) (Some [Some ''v'']) = Inr False"
  by (simp add: has_only_text_children_and_allowed_attrs_def xmlNodeIsText_def ex_defs)

lemma ex_single_pos: "find_single_node ex_xp ''//pos'' ex_heap (Some 0) = Inr (Some 9, quiet_trace)"
  using find_single_node_first[OF ex_find_pos] by simp

lemma ex_single_typed_orth:
  "find_single_node ex_xp ''//orth[@type]'' ex_heap (Some 0) = Inr (Some 3, quiet_trace)"
  using find_single_node_first[OF ex_find_typed_orth] by simp

lemma ex_unlink_typed_orth:
  "unlink_leaf_node_with_attr ex_xp (Some ''//orth[@type]'') (Some [''type'']) (Some [Some ''n''])
     ex_heap (Some 0) (Some True) = Inr (Some 3, xmlUnlinkNode ex_heap 3, Some True, quiet_trace)"
  using unlink_found[OF ex_single_typed_orth, of "Some [''type'']" "Some [Some ''n'']" True]
    ex_valid_3 by simp

section \<open>The validator on a whitelist without NULL entries\<close>

lemma attr_allowed_full:
  "length cs = length as \<Longrightarrow> None \<notin> set cs \<Longrightarrow>
   attr_allowed nm (Some v) as (Some cs) = Inr ((nm, Some v) \<in> set (zip as cs))"
proof (induction as arbitrary: cs)
  case Nil
  then show ?case by simp
next
  case (Cons a as)
  then obtain c cs' where cs: "cs = c # cs'" by (cases cs) auto
  with Cons.prems obtain req where c: "c = Some req" by (cases c) auto
  from Cons.prems cs have "length cs' = length as" and "None \<notin> set cs'" by auto
  from Cons.IH[OF this] cs c show ?case by auto
qed

lemma attrs_allowed_full:
  assumes "length cs = length as" and "None \<notin> set cs"
    and "\<forall>a \<in> set ps. attr_name a \<noteq> None \<and> attr_value a \<noteq> None"
  shows "attrs_allowed ps as (Some cs) =
           Inr (\<forall>a \<in> set ps. (the (attr_name a), attr_value a) \<in> set (zip as cs))"
  using assms(3)
proof (induction ps)
  case Nil
  show ?case by simp
next
  case (Cons p ps)
  then obtain nm v where p: "attr_name p = Some nm" "attr_value p = Some v" by auto
  from Cons have "attrs_allowed ps as (Some cs) =
           Inr (\<forall>a \<in> set ps. (the (attr_name a), attr_value a) \<in> set (zip as cs))" by simp
  with p attr_allowed_full[OF assms(1,2), of nm v] show ?case by simp
qed

lemma only_text_children_leafs:
  "\<forall>c \<in> set kids. ntype (h c) = XML_TEXT_NODE \<longrightarrow> children (h c) = [] \<Longrightarrow>
   only_text_children h kids = Inr (\<forall>c \<in> set kids. ntype (h c) = XML_TEXT_NODE)"
  by (induction kids) (auto simp add: xmlNodeIsText_def)

text \<open>
  The validator does what its comment says as long as no entry of the value array is
  NULL.  For an element whose attributes have names and values, a
  whitelist whose value array is as long as the name array and has no NULL entry, and
  text children that have no children of their own: the validator returns TRUE if and
  only if every attribute of the element is one of the pairs (name, value) of the
  whitelist and every child is a text node.  Without a whitelist it returns TRUE if and
  only if the element has no attribute and every child is a text node.
\<close>

theorem validator_on_full_whitelist:
  assumes "ntype (h n) = XML_ELEMENT_NODE"
    and "\<forall>a \<in> set (properties (h n)). attr_name a \<noteq> None \<and> attr_value a \<noteq> None"
    and "length cont = length attrs" and "None \<notin> set cont"
    and "\<forall>c \<in> set (children (h n)). ntype (h c) = XML_TEXT_NODE \<longrightarrow> children (h c) = []"
  shows "has_only_text_children_and_allowed_attrs h (Some n) (Some attrs) (Some cont) =
           Inr ((\<forall>a \<in> set (properties (h n)).
                   (the (attr_name a), attr_value a) \<in> set (zip attrs cont))
                \<and> (\<forall>c \<in> set (children (h n)). ntype (h c) = XML_TEXT_NODE))
         \<and> has_only_text_children_and_allowed_attrs h (Some n) None ac =
           Inr (properties (h n) = []
                \<and> (\<forall>c \<in> set (children (h n)). ntype (h c) = XML_TEXT_NODE))"
  using assms(1) attrs_allowed_full[OF assms(3,4,2)] only_text_children_leafs[OF assms(5)]
  by (auto simp add: has_only_text_children_and_allowed_attrs_def)

text \<open>
  The theorem on the sample document, with the whitelist \<open>type = n\<close> of section 8 of the
  specification: the element \<open><orth type="n">a</orth>\<close> is accepted; it is rejected
  when the whitelist asks for \<open>type = v\<close>, when it names another attribute, and when
  no whitelist is given.
\<close>

theorem validator_witness_type_n:
  "ntype (ex_heap 3) = XML_ELEMENT_NODE
   \<and> properties (ex_heap 3) = [attribute ''type'' ''n''] \<and> children (ex_heap 3) = [6]
   \<and> ntype (ex_heap 6) = XML_TEXT_NODE \<and> children (ex_heap 6) = []
   \<and> has_only_text_children_and_allowed_attrs ex_heap (Some 3) (Some [''type''])
        (Some [Some ''n'']) = Inr True
   \<and> has_only_text_children_and_allowed_attrs ex_heap (Some 3) (Some [''type''])
        (Some [Some ''v'']) = Inr False
   \<and> has_only_text_children_and_allowed_attrs ex_heap (Some 3) (Some [''n''])
        (Some [Some ''n'']) = Inr False
   \<and> has_only_text_children_and_allowed_attrs ex_heap (Some 3) None None = Inr False"
proof -
  have e: "ntype (ex_heap 3) = XML_ELEMENT_NODE"
    and p: "properties (ex_heap 3) = [attribute ''type'' ''n'']"
    and k: "children (ex_heap 3) = [6]"
    and t: "ntype (ex_heap 6) = XML_TEXT_NODE" and l: "children (ex_heap 6) = []"
    by (simp_all add: ex_defs)
  have a: "\<forall>a \<in> set (properties (ex_heap 3)). attr_name a \<noteq> None \<and> attr_value a \<noteq> None"
    by (simp add: p attribute_def)
  have c: "\<forall>c \<in> set (children (ex_heap 3)).
             ntype (ex_heap c) = XML_TEXT_NODE \<longrightarrow> children (ex_heap c) = []"
    by (simp add: k l)
  have n1: "None \<notin> set [Some ''n'']" and n2: "None \<notin> set [Some ''v'']" by simp_all
  have len: "length [Some ''n''] = length [''type'']" "length [Some ''v''] = length [''type'']"
    "length [Some ''n''] = length [''n'']" by simp_all
  from validator_on_full_whitelist[OF e a len(1) n1 c, of None]
    validator_on_full_whitelist[OF e a len(2) n2 c, of None]
    validator_on_full_whitelist[OF e a len(3) n1 c, of None]
  show ?thesis by (simp add: e p k t l attribute_def)
qed

section \<open>Claims about the validator, the evaluator and the extractor\<close>

text \<open>
  Claim C1 (the source departs from it).  The claim, like the comment above the
  function ("if an entry is NULL, any content is allowed"), lets a NULL entry of
  \<open>attr_contents\<close> accept any value.  The source tests the array pointer instead of the
  entry and hands the NULL entry to \<open>strcmp\<close>: for the element \<open><orth type="n">a</orth>\<close>
  (address 3 of the sample document) and the whitelist \<open>type\<close> with a NULL entry the
  validator dereferences NULL, while with the entry \<open>n\<close> it returns TRUE.
\<close>

theorem C1_null_entry_is_dereferenced:
  "has_only_text_children_and_allowed_attrs ex_heap (Some 3) (Some [''type'']) (Some [None])
     = Inl NullDeref
   \<and> has_only_text_children_and_allowed_attrs ex_heap (Some 3) (Some [''type'']) (Some [Some ''n''])
     = Inr True"
  by (simp add: has_only_text_children_and_allowed_attrs_def xmlNodeIsText_def ex_defs)

text \<open>
  Claim C3.  A call of \<open>my_xmlXPathEvalExpression\<close> that gets past \<open>CHECK_CONTEXT\<close> and
  is given a parser context \<open>a\<close> publishes it in the slot.  Whatever the evaluation leaves
  behind (input left over or not, any value stack), the call returns, and with the
  slot NULL; in the events \<open>tr\<close> of the call both assignments to the slot happen with
  \<open>find_nodeset_pcontext_mutex\<close> held, and the mutex is free at the end; the slot holds
  \<open>a\<close> while \<open>xmlXPathEvalExpr\<close> runs; and a slot that is NULL at the call is NULL, then
  \<open>a\<close>, then NULL again.
\<close>

theorem C3_slot_cleared_on_every_path:
  assumes "\<not> context_invalid h ctxt" and "parser_context run = Some a"
  shows "\<exists>res w' tr. my_xmlXPathEvalExpression run h ctxt w = Inr (res, w')
           \<and> slot w' = Ptr None
           \<and> events w' = events w @ tr
           \<and> mutex_discipline False tr
           \<and> slot_at_eval (slot w) tr = [Ptr (Some a)]
           \<and> last (slot_trace (slot w) tr) = Ptr None
           \<and> remdups_adj (slot_trace (Ptr None) tr) = [Ptr None, Ptr (Some a), Ptr None]"
  using assms by (simp add: my_xmlXPathEvalExpression_def emit_def assign_slot_def Let_def)

text \<open>
  The theorem on the sample document, for an expression that does not parse and a
  slot that is NULL at the call.
\<close>

theorem C3_witness_sample_run:
  "\<not> context_invalid ex_heap (Some \<lparr> ctx_doc = Some 0 \<rparr>)
   \<and> parser_context (ex_xp ''//orth['' ex_heap (Some 0)) = Some 4096
   \<and> (\<exists>res w' tr.
         my_xmlXPathEvalExpression (ex_xp ''//orth['' ex_heap (Some 0)) ex_heap
           (Some \<lparr> ctx_doc = Some 0 \<rparr>) \<lparr> slot = Ptr None, events = [] \<rparr> = Inr (res, w')
         \<and> slot w' = Ptr None
         \<and> events w' = tr
         \<and> mutex_discipline False tr
         \<and> slot_at_eval (Ptr None) tr = [Ptr (Some 4096)]
         \<and> last (slot_trace (Ptr None) tr) = Ptr None
         \<and> remdups_adj (slot_trace (Ptr None) tr) = [Ptr None, Ptr (Some 4096), Ptr None])"
proof -
  have p: "parser_context (ex_xp ''//orth['' ex_heap (Some 0)) = Some 4096"
    by (simp add: ex_xp_def node_set_run_def)
  from C3_slot_cleared_on_every_path[OF ex_context_valid p,
      of "\<lparr> slot = Ptr None, events = [] \<rparr>"]
  have "\<exists>res w' tr.
         my_xmlXPathEvalExpression (ex_xp ''//orth['' ex_heap (Some 0)) ex_heap
           (Some \<lparr> ctx_doc = Some 0 \<rparr>) \<lparr> slot = Ptr None, events = [] \<rparr> = Inr (res, w')
         \<and> slot w' = Ptr None
         \<and> events w' = tr
         \<and> mutex_discipline False tr
         \<and> slot_at_eval (Ptr None) tr = [Ptr (Some 4096)]
         \<and> last (slot_trace (Ptr None) tr) = Ptr None
         \<and> remdups_adj (slot_trace (Ptr None) tr) = [Ptr None, Ptr (Some 4096), Ptr None]"
    by simp
  with ex_context_valid p show ?thesis by blast
qed

text \<open>
  Claim C4.  The claim has \<open>unlink_leaf_node_with_attr\<close> return NULL with the document
  unchanged on zero matches, for every document.  On a document without children,
  where no expression matches a node, the call does not return: \<open>find_single_node\<close>
  calls \<open>find_node_set\<close> with \<open>pctxt\<close> NULL, the slot is then the local \<open>pctxt2\<close>,
  which has no value yet, and \<open>CHECK_CONTEXT\<close> (xml.c, line 191) hands that value to
  \<open>xmlXPatherror\<close>, which dereferences it.
\<close>

theorem C4_childless_document_reads_uninitialised_slot:
  assumes "children (h d) = []" and "context_allocated (xp x h (Some d))"
  shows "unlink_leaf_node_with_attr xp (Some x) attrs cont h (Some d) (Some b) = Inl UninitRead"
  using assms
  by (simp add: unlink_leaf_node_with_attr_def find_single_node_def find_node_set_def
      my_xmlXPathEvalExpression_def context_invalid_def Let_def)

text \<open>
  The theorem on the sample heap: the document at the address 13 has no children, and
  libxml2 would find no node for \<open>//sense\<close> there.
\<close>

theorem C4_witness_document_without_root:
  "children (ex_heap_empty_doc 13) = []
   \<and> context_allocated (ex_xp ''//sense'' ex_heap_empty_doc (Some 13))
   \<and> nodesetval (hd (value_stack (ex_xp ''//sense'' ex_heap_empty_doc (Some 13)))) = Some []
   \<and> unlink_leaf_node_with_attr ex_xp (Some ''//sense'') (Some [''type'']) (Some [Some ''v''])
        ex_heap_empty_doc (Some 13) (Some True) = Inl UninitRead"
proof -
  have c: "children (ex_heap_empty_doc 13) = []" by (simp add: ex_heap_empty_doc_def)
  have a: "context_allocated (ex_xp ''//sense'' ex_heap_empty_doc (Some 13))"
    by (simp add: ex_xp_def node_set_run_def)
  have v: "nodesetval (hd (value_stack (ex_xp ''//sense'' ex_heap_empty_doc (Some 13)))) = Some []"
    by (simp add: ex_xp_def node_set_run_def)
  from C4_childless_document_reads_uninitialised_slot[where h = ex_heap_empty_doc and d = 13
      and xp = ex_xp and x = "''//sense''" and attrs = "Some [''type'']"
      and cont = "Some [Some ''v'']" and b = True] c a v
  show ?thesis by simp
qed

text \<open>
  The calls of \<open>unlink_leaf_node_with_attr\<close> that return.  When the query yields no
  node set the function returns NULL with the heap unchanged; when the node found
  fails the shape validation it returns NULL with the heap unchanged (and the flag
  FALSE); and in general a NULL result comes with the heap of the call.
\<close>

theorem extractor_null_keeps_heap:
  "(\<forall>p tr. find_node_set xp x h (Some d) None = Inr (None, p, tr) \<longrightarrow>
       unlink_leaf_node_with_attr xp (Some x) attrs cont h (Some d) (Some b)
         = Inr (None, h, Some b, tr))
   \<and> (\<forall>n tr. find_single_node xp x h (Some d) = Inr (Some n, tr)
         \<and> has_only_text_children_and_allowed_attrs h (Some n) attrs cont = Inr False \<longrightarrow>
       unlink_leaf_node_with_attr xp (Some x) attrs cont h (Some d) (Some b)
         = Inr (None, h, Some False, tr))
   \<and> (\<forall>xpath doc can h' can' tr.
         unlink_leaf_node_with_attr xp xpath attrs cont h doc can = Inr (None, h', can', tr) \<longrightarrow>
       h' = h)"
proof (intro conjI allI impI)
  fix p tr
  assume "find_node_set xp x h (Some d) None = Inr (None, p, tr)"
  then have "find_single_node xp x h (Some d) = Inr (None, tr)" by (rule find_single_node_none)
  then show "unlink_leaf_node_with_attr xp (Some x) attrs cont h (Some d) (Some b)
               = Inr (None, h, Some b, tr)"
    by (rule unlink_not_found)
next
  fix n tr
  assume "find_single_node xp x h (Some d) = Inr (Some n, tr)
            \<and> has_only_text_children_and_allowed_attrs h (Some n) attrs cont = Inr False"
  then show "unlink_leaf_node_with_attr xp (Some x) attrs cont h (Some d) (Some b)
               = Inr (None, h, Some False, tr)"
    by (simp add: unlink_found)
next
  fix xpath doc can h' can' tr
  assume "unlink_leaf_node_with_attr xp xpath attrs cont h doc can = Inr (None, h', can', tr)"
  from unlink_result_cases[OF this] show "h' = h" by auto
qed

text \<open>
  The theorem on the sample document: \<open>//sense\<close> matches nothing, and \<open>//pos\<close> matches
  an element with an element child, which the validator rejects.
\<close>

theorem extractor_null_keeps_heap_witness:
  "find_node_set ex_xp ''//sense'' ex_heap (Some 0) None = Inr (None, None, quiet_trace)
   \<and> unlink_leaf_node_with_attr ex_xp (Some ''//sense'') (Some [''type'']) (Some [Some ''v''])
        ex_heap (Some 0) (Some True) = Inr (None, ex_heap, Some True, quiet_trace)
   \<and> find_single_node ex_xp ''//pos'' ex_heap (Some 0) = Inr (Some 9, quiet_trace)
   \<and> has_only_text_children_and_allowed_attrs ex_heap (Some 9) (Some [''type''])
        (Some [Some ''v'']) = Inr False
   \<and> unlink_leaf_node_with_attr ex_xp (Some ''//pos'') (Some [''type'']) (Some [Some ''v''])
        ex_heap (Some 0) (Some True) = Inr (None, ex_heap, Some False, quiet_trace)"
  using extractor_null_keeps_heap[of ex_xp "''//sense''" ex_heap 0 "Some [''type'']"
      "Some [Some ''v'']" True]
    extractor_null_keeps_heap[of ex_xp "''//pos''" ex_heap 0 "Some [''type'']"
      "Some [Some ''v'']" True]
    ex_find_sense ex_single_pos ex_invalid_9
  by blast

text \<open>
  Claim C5.  When the node set holds more than one node, \<open>n\<close> first, the extractor
  prints the warning "Taking first" and goes on with \<open>n\<close> alone: its result is decided
  by the validation of \<open>n\<close>; if \<open>n\<close> is valid it is returned and unlinked.  Unlinking
  \<open>n\<close> leaves every other node its parent, type and attributes, and leaves every child
  list as it was but for \<open>n\<close>: all other nodes stay where they are, in their order.
\<close>

theorem C5_first_match_only:
  assumes "find_node_set xp x h (Some d) None = Inr (Some (n # m # ms), p, tr)"
  shows "unlink_leaf_node_with_attr xp (Some x) attrs cont h (Some d) (Some b) =
           (case has_only_text_children_and_allowed_attrs h (Some n) attrs cont of
              Inl f \<Rightarrow> Inl f
            | Inr valid \<Rightarrow>
                if valid then
                  Inr (Some n, xmlUnlinkNode h n, Some b,
                       tr @ [Diagnostic (TakingFirst (length (n # m # ms)))])
                else
                  Inr (None, h, Some False,
                       tr @ [Diagnostic (TakingFirst (length (n # m # ms)))]))
         \<and> (\<forall>q. q \<noteq> n \<longrightarrow>
               parent (xmlUnlinkNode h n q) = parent (h q)
               \<and> ntype (xmlUnlinkNode h n q) = ntype (h q)
               \<and> properties (xmlUnlinkNode h n q) = properties (h q))
         \<and> (\<forall>r. filter (\<lambda>c. c \<noteq> n) (children (xmlUnlinkNode h n r))
                  = filter (\<lambda>c. c \<noteq> n) (children (h r)))"
proof -
  from find_single_node_first[OF assms]
  have "find_single_node xp x h (Some d) =
          Inr (Some n, tr @ [Diagnostic (TakingFirst (length (n # m # ms)))])"
    by simp
  from unlink_found[OF this] show ?thesis
    by (simp add: unlink_parent unlink_ntype unlink_properties unlink_keeps_others)
qed

text \<open>
  The theorem on the sample document: of the three orth elements the first is
  returned; the form element keeps the other two.
\<close>

theorem C5_witness_three_orths:
  "find_node_set ex_xp ''/entry/form/orth'' ex_heap (Some 0) None
     = Inr (Some [3, 4, 5], None, quiet_trace)
   \<and> unlink_leaf_node_with_attr ex_xp (Some ''/entry/form/orth'') (Some [''type''])
        (Some [Some ''n'']) ex_heap (Some 0) (Some True)
     = Inr (Some 3, xmlUnlinkNode ex_heap 3, Some True,
            quiet_trace @ [Diagnostic (TakingFirst 3)])
   \<and> children (xmlUnlinkNode ex_heap 3 2) = [4, 5]
   \<and> parent (xmlUnlinkNode ex_heap 3 4) = Some 2
   \<and> parent (xmlUnlinkNode ex_heap 3 5) = Some 2"
proof -
  have ch: "children (xmlUnlinkNode ex_heap 3 2) = [4, 5]"
    by (simp add: unlink_children ex_defs)
  have p4: "parent (ex_heap 4) = Some 2" and p5: "parent (ex_heap 5) = Some 2"
    by (simp_all add: ex_defs)
  from C5_first_match_only[OF ex_find_orths, of "Some [''type'']" "Some [Some ''n'']" True]
    ex_valid_3 ex_find_orths ch p4 p5
  show ?thesis by simp
qed




text \<open>
  Claim C9.  When \<open>unlink_leaf_node_with_attr\<close> returns a node \<open>n\<close> that was child
  number \<open>i\<close> of \<open>p\<close>, putting \<open>n\<close> at position \<open>i\<close> under \<open>p\<close> again restores the heap of
  the call.
\<close>

theorem C9_detach_reinsert_roundtrip:
  assumes "unlink_leaf_node_with_attr xp xpath attrs cont h doc can = Inr (Some n, h', can', tr)"
    and "parent (h n) = Some p" and "p \<noteq> n"
    and "i < length (children (h p))" and "children (h p) ! i = n"
    and "n \<notin> set (take i (children (h p)))"
  shows "relink_at h' p i n = h"
proof -
  from unlink_result_cases[OF assms(1)] have "h' = xmlUnlinkNode h n" by auto
  with relink_unlink[OF assms(2-6)] show ?thesis by simp
qed

text \<open>The theorem on the sample document: the first orth element, child 0 of form.\<close>

theorem C9_witness_first_orth:
  "unlink_leaf_node_with_attr ex_xp (Some ''//orth[@type]'') (Some [''type'']) (Some [Some ''n''])
     ex_heap (Some 0) (Some True) = Inr (Some 3, xmlUnlinkNode ex_heap 3, Some True, quiet_trace)
   \<and> parent (ex_heap 3) = Some 2 \<and> (2::nat) \<noteq> 3
   \<and> 0 < length (children (ex_heap 2)) \<and> children (ex_heap 2) ! 0 = 3
   \<and> 3 \<notin> set (take 0 (children (ex_heap 2)))
   \<and> children (xmlUnlinkNode ex_heap 3 2) = [4, 5]
   \<and> relink_at (xmlUnlinkNode ex_heap 3) 2 0 3 = ex_heap"
proof -
  have a: "parent (ex_heap 3) = Some 2" by (simp add: ex_defs)
  have b: "(2::nat) \<noteq> 3" by simp
  have c: "0 < length (children (ex_heap 2))" by (simp add: ex_defs)
  have d: "children (ex_heap 2) ! 0 = 3" by (simp add: ex_defs)
  have e: "3 \<notin> set (take 0 (children (ex_heap 2)))" by simp
  have f: "children (xmlUnlinkNode ex_heap 3 2) = [4, 5]" by (simp add: unlink_children ex_defs)
  from C9_detach_reinsert_roundtrip[OF ex_unlink_typed_orth a b c d e]
    ex_unlink_typed_orth a b c d e f
  show ?thesis by simp
qed

text \<open>
  Claim C10.  The claim has every call whose query matches no node return NULL with
  the flag \<open>*can\<close> as it was.  On a document without children no query matches a node,
  and the call returns nothing, whatever the flag holds: \<open>find_single_node\<close> already
  stops in \<open>CHECK_CONTEXT\<close> on the uninitialised \<open>pctxt2\<close> of \<open>find_node_set\<close>, so
  there is no result and no flag for the caller to read.
\<close>

theorem C10_no_match_without_return:
  assumes "children (h d) = []" and "context_allocated (xp x h (Some d))"
  shows "find_single_node xp x h (Some d) = Inl UninitRead
         \<and> (\<forall>b r h' can' tr.
              unlink_leaf_node_with_attr xp (Some x) attrs cont h (Some d) (Some b)
                \<noteq> Inr (r, h', can', tr))"
  using assms
  by (simp add: unlink_leaf_node_with_attr_def find_single_node_def find_node_set_def
      my_xmlXPathEvalExpression_def context_invalid_def Let_def)

text \<open>
  The theorem on the sample heap, on the document without children at the address
  13; on the first document the same query returns NULL and keeps the flag.
\<close>

theorem C10_witness_flag_never_returned:
  "children (ex_heap_empty_doc 13) = []
   \<and> context_allocated (ex_xp ''//sense'' ex_heap_empty_doc (Some 13))
   \<and> find_single_node ex_xp ''//sense'' ex_heap_empty_doc (Some 13) = Inl UninitRead
   \<and> unlink_leaf_node_with_attr ex_xp (Some ''//sense'') (Some [''type'']) (Some [Some ''v''])
        ex_heap_empty_doc (Some 13) (Some False)
        \<noteq> Inr (None, ex_heap_empty_doc, Some False, quiet_trace)
   \<and> unlink_leaf_node_with_attr ex_xp (Some ''//sense'') (Some [''type'']) (Some [Some ''v''])
        ex_heap_empty_doc (Some 13) (Some True)
        \<noteq> Inr (None, ex_heap_empty_doc, Some True, quiet_trace)"
proof -
  have c: "children (ex_heap_empty_doc 13) = []" by (simp add: ex_heap_empty_doc_def)
  have a: "context_allocated (ex_xp ''//sense'' ex_heap_empty_doc (Some 13))"
    by (simp add: ex_xp_def node_set_run_def)
  from C10_no_match_without_return[where h = ex_heap_empty_doc and d = 13 and xp = ex_xp
      and x = "''//sense''" and attrs = "Some [''type'']" and cont = "Some [Some ''v'']"] c a
  show ?thesis by blast
qed

text \<open>
  The flag in the calls of \<open>unlink_leaf_node_with_attr\<close> that return.  When the query
  yields no node set, the function returns NULL and the flag \<open>*can\<close> keeps the value it
  had.  When the node found fails the validation, the function returns NULL as well
  and the flag is FALSE.  Whenever the flag differs after the call, the result is NULL,
  the flag is FALSE and a node was found that failed the validation.  So NULL alone
  does not tell the two cases apart, and a flag that was not TRUE before the call
  tells nothing.
\<close>

theorem extractor_flag_written_only_on_rejection:
  "(\<forall>p tr. find_node_set xp x h (Some d) None = Inr (None, p, tr) \<longrightarrow>
       unlink_leaf_node_with_attr xp (Some x) attrs cont h (Some d) (Some b)
         = Inr (None, h, Some b, tr))
   \<and> (\<forall>n tr. find_single_node xp x h (Some d) = Inr (Some n, tr)
         \<and> has_only_text_children_and_allowed_attrs h (Some n) attrs cont = Inr False \<longrightarrow>
       unlink_leaf_node_with_attr xp (Some x) attrs cont h (Some d) (Some b)
         = Inr (None, h, Some False, tr))
   \<and> (\<forall>xpath doc can r h' can' tr.
         unlink_leaf_node_with_attr xp xpath attrs cont h doc can = Inr (r, h', can', tr)
         \<and> can' \<noteq> can \<longrightarrow>
       r = None \<and> can' = Some False
       \<and> (\<exists>y n tr0. xpath = Some y \<and> find_single_node xp y h doc = Inr (Some n, tr0)
             \<and> has_only_text_children_and_allowed_attrs h (Some n) attrs cont = Inr False))"
proof (intro conjI allI impI)
  fix p tr
  assume "find_node_set xp x h (Some d) None = Inr (None, p, tr)"
  then have "find_single_node xp x h (Some d) = Inr (None, tr)" by (rule find_single_node_none)
  then show "unlink_leaf_node_with_attr xp (Some x) attrs cont h (Some d) (Some b)
               = Inr (None, h, Some b, tr)"
    by (rule unlink_not_found)
next
  fix n tr
  assume "find_single_node xp x h (Some d) = Inr (Some n, tr)
            \<and> has_only_text_children_and_allowed_attrs h (Some n) attrs cont = Inr False"
  then show "unlink_leaf_node_with_attr xp (Some x) attrs cont h (Some d) (Some b)
               = Inr (None, h, Some False, tr)"
    by (simp add: unlink_found)
next
  fix xpath doc can r h' can' tr
  assume a: "unlink_leaf_node_with_attr xp xpath attrs cont h doc can = Inr (r, h', can', tr)
               \<and> can' \<noteq> can"
  from unlink_result_cases[of xp xpath attrs cont h doc can r h' can' tr] a
  show "r = None" and "can' = Some False"
    and "\<exists>y n tr0. xpath = Some y \<and> find_single_node xp y h doc = Inr (Some n, tr0)
             \<and> has_only_text_children_and_allowed_attrs h (Some n) attrs cont = Inr False"
    by auto
qed

text \<open>
  The theorem on the sample document: no match with the flag TRUE and with the flag
  FALSE before the call, and a rejected node.
\<close>

theorem extractor_flag_witness:
  "find_node_set ex_xp ''//sense'' ex_heap (Some 0) None = Inr (None, None, quiet_trace)
   \<and> unlink_leaf_node_with_attr ex_xp (Some ''//sense'') (Some [''type'']) (Some [Some ''v''])
        ex_heap (Some 0) (Some True) = Inr (None, ex_heap, Some True, quiet_trace)
   \<and> unlink_leaf_node_with_attr ex_xp (Some ''//sense'') (Some [''type'']) (Some [Some ''v''])
        ex_heap (Some 0) (Some False) = Inr (None, ex_heap, Some False, quiet_trace)
   \<and> unlink_leaf_node_with_attr ex_xp (Some ''//pos'') (Some [''type'']) (Some [Some ''v''])
        ex_heap (Some 0) (Some True) = Inr (None, ex_heap, Some False, quiet_trace)
   \<and> Some False \<noteq> Some True
   \<and> find_single_node ex_xp ''//pos'' ex_heap (Some 0) = Inr (Some 9, quiet_trace)
   \<and> has_only_text_children_and_allowed_attrs ex_heap (Some 9) (Some [''type''])
        (Some [Some ''v'']) = Inr False"
  using extractor_flag_written_only_on_rejection[of ex_xp "''//sense''" ex_heap 0 "Some [''type'']"
      "Some [Some ''v'']" True]
    extractor_flag_written_only_on_rejection[of ex_xp "''//sense''" ex_heap 0 "Some [''type'']"
      "Some [Some ''v'']" False]
    extractor_flag_written_only_on_rejection[of ex_xp "''//pos''" ex_heap 0 "Some [''type'']"
      "Some [Some ''v'']" True]
    ex_find_sense ex_single_pos ex_invalid_9
  by auto

section \<open>Properties of the content joiner\<close>

lemma find_node_set_nonempty:
  "find_node_set xp x h doc pctxt = Inr (Some nodes, p, tr) \<Longrightarrow> nodes \<noteq> []"
  by (auto simp add: find_node_set_def Let_def split: if_splits sum.splits option.splits)

lemma join_from_nonempty:
  "acc \<noteq> [] \<Longrightarrow> join_from acc cs = acc @ concat (map (\<lambda>c. '', '' @ orth_text c) cs)"
  by (induction cs arbitrary: acc) simp_all

lemma sep_join_Cons: "sep_join (t # ts) = t @ concat (map (\<lambda>u. '', '' @ u) ts)"
  by (induction ts arbitrary: t) simp_all

lemma join_from_empty: "join_from [] cs = joined_orths cs"
proof (induction cs)
  case Nil
  show ?case by (simp add: joined_orths_def)
next
  case (Cons c cs)
  show ?case
  proof (cases "orth_text c = []")
    case True
    with Cons show ?thesis by (simp add: joined_orths_def)
  next
    case False
    then show ?thesis
      by (simp add: joined_orths_def join_from_nonempty sep_join_Cons comp_def)
  qed
qed

lemma take_take_append: "take k (take k a @ b) = take k (a @ b)"
proof (cases "k \<le> length a")
  case True
  then show ?thesis by simp
next
  case False
  then show ?thesis by simp
qed

lemma g_strlcat_take:
  assumes "0 < len"
  shows "g_strlcat (take (len - 1) a) t len = take (len - 1) (a @ t)"
proof -
  have "length (take (len - 1) a) \<le> len - 1" by simp
  with assms have "\<not> length (take (len - 1) a) \<ge> len" by linarith
  then have "g_strlcat (take (len - 1) a) t len = take (len - 1) (take (len - 1) a @ t)"
    unfolding g_strlcat_def by (rule if_not_P)
  then show ?thesis by (simp only: take_take_append)
qed

lemma orth_loop_full_table: "orth_loop e cs len [] = Inl ReadPastEnd"
  by (induction cs arbitrary: e) (simp_all add: Let_def)

lemma orth_loop_take:
  "0 < len \<Longrightarrow> spare \<noteq> [] \<Longrightarrow>
   orth_loop (take (len - 1) a) cs len spare = Inr (take (len - 1) (join_from a cs))"
proof (induction cs arbitrary: a)
  case Nil
  then show ?case by (cases spare) simp_all
next
  case (Cons c cs)
  let ?a1 = "if a = [] then a else a @ '', ''"
  have e1: "(if length (take (len - 1) a) \<noteq> 0 then g_strlcat (take (len - 1) a) '', '' len
             else take (len - 1) a) = take (len - 1) ?a1"
  proof (cases "length (take (len - 1) a) \<noteq> 0")
    case True
    then have "a \<noteq> []" by auto
    with True show ?thesis
      by (simp only: g_strlcat_take[OF Cons.prems(1)] if_True if_False not_False_eq_True)
  next
    case False
    then have "length (take (len - 1) a) = 0" by blast
    then have t0: "take (len - 1) a = []" by (simp only: length_0_conv)
    have t1: "take (len - 1) ?a1 = []"
    proof (cases "a = []")
      case True
      then show ?thesis by simp
    next
      case nonempty: False
      with False have "len - 1 = 0" by (cases a) auto
      then show ?thesis by simp
    qed
    show ?thesis by (simp only: t0 t1) simp
  qed
  have e2: "(case c of None \<Rightarrow> g_strlcat (take (len - 1) ?a1) ''(null)'' len
             | Some t \<Rightarrow> g_strlcat (take (len - 1) ?a1) t len)
            = take (len - 1) (?a1 @ orth_text c)"
    by (cases c) (simp_all only: g_strlcat_take[OF Cons.prems(1)] orth_text_def option.case)
  have "orth_loop (take (len - 1) a) (c # cs) len spare
          = orth_loop (take (len - 1) (?a1 @ orth_text c)) cs len spare"
    by (simp only: orth_loop.simps Let_def e1 e2)
  also have "\<dots> = Inr (take (len - 1) (join_from (?a1 @ orth_text c) cs))"
    using Cons.prems by (rule Cons.IH)
  finally show ?case by simp
qed

lemma orth_loop_joined:
  "0 < len \<Longrightarrow> spare \<noteq> [] \<Longrightarrow>
   orth_loop [] cs len spare = Inr (take (len - 1) (joined_orths cs))"
  using orth_loop_take[of len spare "[]" cs] by (simp add: join_from_empty)

lemma g_utf8_skip_pos: "0 < g_utf8_skip b"
  by (simp add: g_utf8_skip_def Let_def)

lemma concat_utf8_chars: "concat (utf8_chars s) = s"
  by (induction s rule: utf8_chars.induct) simp_all

lemma take_concat_prefix: "take (length (concat (take n xs))) (concat xs) = concat (take n xs)"
proof -
  have "concat (take n xs @ drop n xs) = concat (take n xs) @ concat (drop n xs)"
    by (rule concat_append)
  then have "concat xs = concat (take n xs) @ concat (drop n xs)"
    by (simp only: append_take_drop_id)
  then have "take (length (concat (take n xs))) (concat xs)
      = take (length (concat (take n xs))) (concat (take n xs) @ concat (drop n xs))"
    by (rule arg_cong)
  then show ?thesis by simp
qed

lemma utf8_offset_whole:
  "utf8_whole s \<Longrightarrow> utf8_offset n s = Inr (length (concat (take n (utf8_chars s))))"
proof (induction n arbitrary: s)
  case 0
  show ?case by simp
next
  case (Suc n)
  show ?case
  proof (cases s)
    case Nil
    then show ?thesis by simp
  next
    case (Cons b bs)
    let ?k = "g_utf8_skip b"
    from Suc.prems Cons have len1: "length (b # take (?k - 1) bs) = ?k"
      and rest: "utf8_whole (drop (?k - 1) bs)"
      by (simp_all add: utf8_whole_def)
    have pos: "0 < ?k" by (rule g_utf8_skip_pos)
    from len1 pos have le: "?k - 1 \<le> length bs" by (simp add: min_def split: if_splits)
    then have fits: "?k \<le> length (b # bs)" using pos by simp
    have dr: "drop ?k (b # bs) = drop (?k - 1) bs" using pos by (cases ?k) simp_all
    from Suc.IH[OF rest] fits dr len1 Cons show ?thesis
      by (simp add: Let_def)
  qed
qed

lemma g_utf8_strncpy_whole:
  assumes "utf8_whole e" and "length e < sz"
  shows "g_utf8_strncpy e n sz = Inr (concat (take n (utf8_chars e)))"
proof -
  let ?k = "length (concat (take n (utf8_chars e)))"
  have "take ?k (concat (utf8_chars e)) = concat (take n (utf8_chars e))"
    by (rule take_concat_prefix)
  then have tk: "take ?k e = concat (take n (utf8_chars e))"
    by (simp only: concat_utf8_chars)
  then have "?k = length (take ?k e)" by (rule arg_cong[of _ _ length, symmetric])
  then have "?k \<le> length e" by simp
  with assms(2) have "\<not> ?k + 1 > sz" by simp
  with utf8_offset_whole[OF assms(1), of n] tk show ?thesis
    by (simp add: g_utf8_strncpy_def)
qed

lemma entry_orths_found:
  assumes "cp h n = Some (h', d)" and "0 < len"
    and "find_node_set xp ''/entry/form/orth'' h' (Some d) None = Inr (Some nodes, p, tr)"
    and "spare \<noteq> []"
  shows "entry_orths_to_string xp gc cp gettext spare h (Some n) len (Some old) =
           (case g_utf8_strncpy (take (nat len - 1) (joined_orths (map (gc h') nodes)))
                   (nat (len div 2)) (nat len) of
              Inl f \<Rightarrow> Inl f
            | Inr r \<Rightarrow> Inr (True, Some r))"
proof -
  have ne: "nodes \<noteq> []" using assms(3) by (rule find_node_set_nonempty)
  have pos: "0 < nat len" using assms(2) by simp
  show ?thesis using assms(1-3) ne
    by (simp add: entry_orths_to_string_def copy_node_to_doc_def
        orth_loop_joined[OF pos assms(4)])
qed

lemma entry_orths_full_table:
  assumes "cp h n = Some (h', d)" and "0 < len"
    and "find_node_set xp ''/entry/form/orth'' h' (Some d) None = Inr (Some nodes, p, tr)"
  shows "entry_orths_to_string xp gc cp gettext [] h (Some n) len (Some old) = Inl ReadPastEnd"
proof -
  have ne: "nodes \<noteq> []" using assms(3) by (rule find_node_set_nonempty)
  show ?thesis using assms ne
    by (simp add: entry_orths_to_string_def copy_node_to_doc_def orth_loop_full_table)
qed

lemma entry_orths_not_found:
  assumes "cp h n = Some (h', d)" and "0 < len"
    and "find_node_set xp ''/entry/form/orth'' h' (Some d) None = Inr (None, p, tr)"
  shows "entry_orths_to_string xp gc cp gettext spare h (Some n) len (Some old) =
           Inr (False, Some (take (nat len - 1) (gettext ''No nodes (form/orth)!'')))"
  using assms by (simp add: entry_orths_to_string_def copy_node_to_doc_def g_strlcpy_def)

text \<open>
  Claim C7, as amended.  For a non-empty node set whose table has an entry allocated
  behind its last node, \<open>entry_orths_to_string\<close> returns TRUE and stores the joined
  text: the contents in the order of the node set, \<open>(null)\<close> for a node whose content is
  NULL and nothing for an empty content, a comma and a space before each content once
  the text is not empty; cut to \<open>len - 1\<close> bytes and then to \<open>len / 2\<close> characters,
  provided the cut at \<open>len - 1\<close> bytes does not fall inside a multi-byte character.
  When the query yields no node set it returns FALSE and stores the message
  "No nodes (form/orth)!", cut to \<open>len - 1\<close> bytes.
\<close>

theorem C7_joined_text:
  assumes "cp h n = Some (h', d)" and "0 < len"
  shows "(\<forall>nodes p tr.
            find_node_set xp ''/entry/form/orth'' h' (Some d) None = Inr (Some nodes, p, tr)
            \<and> spare \<noteq> []
            \<and> utf8_whole (take (nat len - 1) (joined_orths (map (gc h') nodes))) \<longrightarrow>
            entry_orths_to_string xp gc cp gettext spare h (Some n) len (Some old) =
              Inr (True, Some (concat (take (nat (len div 2))
                     (utf8_chars (take (nat len - 1) (joined_orths (map (gc h') nodes))))))))
       \<and> (\<forall>p tr.
            find_node_set xp ''/entry/form/orth'' h' (Some d) None = Inr (None, p, tr) \<longrightarrow>
            entry_orths_to_string xp gc cp gettext spare h (Some n) len (Some old) =
              Inr (False, Some (take (nat len - 1) (gettext ''No nodes (form/orth)!''))))"
proof (intro conjI allI impI)
  fix nodes p tr
  assume a: "find_node_set xp ''/entry/form/orth'' h' (Some d) None = Inr (Some nodes, p, tr)
               \<and> spare \<noteq> []
               \<and> utf8_whole (take (nat len - 1) (joined_orths (map (gc h') nodes)))"
  let ?e = "take (nat len - 1) (joined_orths (map (gc h') nodes))"
  have "length ?e < nat len" using assms(2) by simp
  with a have "g_utf8_strncpy ?e (nat (len div 2)) (nat len)
                 = Inr (concat (take (nat (len div 2)) (utf8_chars ?e)))"
    by (simp add: g_utf8_strncpy_whole)
  with entry_orths_found[where cp = cp and h = h and n = n and h' = h' and d = d and len = len
      and xp = xp and nodes = nodes and p = p and tr = tr and gc = gc and gettext = gettext
      and old = old and spare = spare] assms a
  show "entry_orths_to_string xp gc cp gettext spare h (Some n) len (Some old) =
          Inr (True, Some (concat (take (nat (len div 2)) (utf8_chars ?e))))"
    by simp
next
  fix p tr
  assume "find_node_set xp ''/entry/form/orth'' h' (Some d) None = Inr (None, p, tr)"
  with assms show "entry_orths_to_string xp gc cp gettext spare h (Some n) len (Some old) =
          Inr (False, Some (take (nat len - 1) (gettext ''No nodes (form/orth)!'')))"
    by (rule entry_orths_not_found)
qed

lemma ex_find_orths_empty_entry:
  "find_node_set ex_xp ''/entry/form/orth'' ex_heap (Some 11) None = Inr (None, None, quiet_trace)"
  by (simp add: find_node_set_def my_xmlXPathEvalExpression_def emit_def assign_slot_def
      context_invalid_def ex_defs)

lemma ex_joined_null: "joined_orths (map (ex_gc_null ex_heap) [3, 4, 5]) = ''a, (null), c''"
  by (simp add: joined_orths_def ex_gc_null_def orth_text_def)

lemma ex_joined_empty: "joined_orths (map (ex_gc ex_heap) [3, 4, 5]) = ''a, , c''"
  by (simp add: joined_orths_def ex_gc_def orth_text_def)

lemma ascii_whole: "utf8_whole ''a, (null), c''"
  by (simp add: utf8_whole_def g_utf8_skip_def)

lemma ascii_chars: "concat (take 50 (utf8_chars ''a, (null), c'')) = ''a, (null), c''"
  by (simp add: g_utf8_skip_def)

lemma ex_spare_nonempty: "ex_spare \<noteq> []"
  by (simp add: ex_spare_def)

text \<open>
  The theorem on the sample documents: contents \<open>a\<close>, NULL, \<open>c\<close> give \<open>a, (null), c\<close>;
  the entry without forms gives the message.
\<close>

theorem C7_witness_placeholder_and_no_match:
  "ex_cp ex_heap 1 = Some (ex_heap, 0) \<and> (0::int) < 100
   \<and> find_node_set ex_xp ''/entry/form/orth'' ex_heap (Some 0) None
        = Inr (Some [3, 4, 5], None, quiet_trace)
   \<and> ex_spare \<noteq> []
   \<and> map (ex_gc_null ex_heap) [3, 4, 5] = [Some ''a'', None, Some ''c'']
   \<and> utf8_whole (take (nat 100 - 1) (joined_orths (map (ex_gc_null ex_heap) [3, 4, 5])))
   \<and> entry_orths_to_string ex_xp ex_gc_null ex_cp no_gettext ex_spare ex_heap (Some 1) 100
        (Some []) = Inr (True, Some ''a, (null), c'')
   \<and> ex_cp ex_heap 12 = Some (ex_heap, 11)
   \<and> find_node_set ex_xp ''/entry/form/orth'' ex_heap (Some 11) None
        = Inr (None, None, quiet_trace)
   \<and> entry_orths_to_string ex_xp ex_gc_null ex_cp no_gettext ex_spare ex_heap (Some 12) 100
        (Some []) = Inr (False, Some ''No nodes (form/orth)!'')"
proof -
  have c1: "ex_cp ex_heap 1 = Some (ex_heap, 0)" and c12: "ex_cp ex_heap 12 = Some (ex_heap, 11)"
    by (simp_all add: ex_cp_def)
  have l: "(0::int) < 100" by simp
  have m: "map (ex_gc_null ex_heap) [3, 4, 5] = [Some ''a'', None, Some ''c'']"
    by (simp add: ex_gc_null_def)
  have w: "utf8_whole (take (nat 100 - 1) (joined_orths (map (ex_gc_null ex_heap) [3, 4, 5])))"
    unfolding ex_joined_null using ascii_whole by simp
  have tk: "take (nat 100 - 1) ''a, (null), c'' = ''a, (null), c''" by simp
  from C7_joined_text[where cp = ex_cp and h = ex_heap and n = 1 and h' = ex_heap and d = 0
      and len = 100 and xp = ex_xp and gc = ex_gc_null and gettext = no_gettext and old = "[]"
      and spare = ex_spare]
    c1 l ex_find_orths w ex_spare_nonempty
  have "entry_orths_to_string ex_xp ex_gc_null ex_cp no_gettext ex_spare ex_heap (Some 1) 100
          (Some [])
        = Inr (True, Some (concat (take (nat (100 div 2))
             (utf8_chars (take (nat 100 - 1) (joined_orths (map (ex_gc_null ex_heap) [3, 4, 5])))))))"
    by blast
  then have r1: "entry_orths_to_string ex_xp ex_gc_null ex_cp no_gettext ex_spare ex_heap
                   (Some 1) 100 (Some [])
        = Inr (True, Some ''a, (null), c'')"
    unfolding ex_joined_null tk using ascii_chars by simp
  from C7_joined_text[where cp = ex_cp and h = ex_heap and n = 12 and h' = ex_heap and d = 11
      and len = 100 and xp = ex_xp and gc = ex_gc_null and gettext = no_gettext and old = "[]"
      and spare = ex_spare]
    c12 l ex_find_orths_empty_entry
  have r2: "entry_orths_to_string ex_xp ex_gc_null ex_cp no_gettext ex_spare ex_heap (Some 12)
              100 (Some [])
        = Inr (False, Some ''No nodes (form/orth)!'')"
    by (simp add: no_gettext_def)
  from c1 c12 l m w r1 r2 ex_find_orths ex_find_orths_empty_entry ex_spare_nonempty
  show ?thesis by blast
qed

text \<open>
  Against claim C7 as stated (contents \<open>a\<close>, the empty string, \<open>c\<close> yield
  \<open>a, (null), c\<close>): the empty content of the second orth element is not replaced by
  the placeholder; the result is \<open>a, , c\<close>.
\<close>

theorem C7_counterexample_empty_content:
  "find_node_set ex_xp ''/entry/form/orth'' ex_heap (Some 0) None
     = Inr (Some [3, 4, 5], None, quiet_trace)
   \<and> map (ex_gc ex_heap) [3, 4, 5] = [Some ''a'', Some [], Some ''c'']
   \<and> entry_orths_to_string ex_xp ex_gc ex_cp no_gettext ex_spare ex_heap (Some 1) 100 (Some [])
        = Inr (True, Some ''a, , c'')
   \<and> ''a, , c'' \<noteq> ''a, (null), c''"
proof -
  have c1: "ex_cp ex_heap 1 = Some (ex_heap, 0)" by (simp add: ex_cp_def)
  have cpy: "g_utf8_strncpy ''a, , c'' 50 100 = Inr ''a, , c''"
    by code_simp
  have tk: "take (nat 100 - 1) ''a, , c'' = ''a, , c''" by simp
  have "entry_orths_to_string ex_xp ex_gc ex_cp no_gettext ex_spare ex_heap (Some 1) 100 (Some [])
          = (case g_utf8_strncpy (take (nat 100 - 1) (joined_orths (map (ex_gc ex_heap) [3, 4, 5])))
                   (nat (100 div 2)) (nat 100) of
              Inl f \<Rightarrow> Inl f
            | Inr r \<Rightarrow> Inr (True, Some r))"
    using entry_orths_found[where cp = ex_cp and h = ex_heap and n = 1 and h' = ex_heap
        and d = 0 and len = 100 and xp = ex_xp and gc = ex_gc and gettext = no_gettext
        and old = "[]" and spare = ex_spare] c1 ex_find_orths ex_spare_nonempty
    by simp
  then have "entry_orths_to_string ex_xp ex_gc ex_cp no_gettext ex_spare ex_heap (Some 1) 100
               (Some [])
        = Inr (True, Some ''a, , c'')"
    unfolding ex_joined_empty tk using cpy by simp
  moreover have "map (ex_gc ex_heap) [3, 4, 5] = [Some ''a'', Some [], Some ''c'']"
    by (simp add: ex_gc_def)
  ultimately show ?thesis using ex_find_orths by simp
qed

text \<open>
  A full node table.  When no entry is allocated behind the last node, the loop
  condition reads beyond the table after the last node, whatever the contents are.
\<close>

theorem joiner_full_table_reads_behind:
  "find_node_set ex_xp ''/entry/form/orth'' ex_heap (Some 0) None
     = Inr (Some [3, 4, 5], None, quiet_trace)
   \<and> entry_orths_to_string ex_xp ex_gc_null ex_cp no_gettext [] ex_heap (Some 1) 100 (Some [])
     = Inl ReadPastEnd"
proof -
  have c1: "ex_cp ex_heap 1 = Some (ex_heap, 0)" by (simp add: ex_cp_def)
  have l: "(0::int) < 100" by simp
  from entry_orths_full_table[where cp = ex_cp and h = ex_heap and n = 1 and h' = ex_heap
      and d = 0 and len = 100 and xp = ex_xp and gc = ex_gc_null and gettext = no_gettext
      and old = "[]"] c1 l ex_find_orths
  show ?thesis by simp
qed

text \<open>
  A cut inside a character.  With a buffer of 5 bytes and contents of two euro
  signs each, the cut at 4 bytes falls inside the second character, and the copy that
  follows steps over the terminator and writes beyond the caller's buffer.
\<close>

theorem joiner_cut_inside_character:
  "find_node_set ex_xp ''/entry/form/orth'' ex_heap (Some 0) None
     = Inr (Some [3, 4, 5], None, quiet_trace)
   \<and> orth_loop [] (map (ex_gc_euro ex_heap) [3, 4, 5]) 5 ex_spare
     = Inr [CHR 0xE2, CHR 0x82, CHR 0xAC, CHR 0xE2]
   \<and> \<not> utf8_whole [CHR 0xE2, CHR 0x82, CHR 0xAC, CHR 0xE2]
   \<and> entry_orths_to_string ex_xp ex_gc_euro ex_cp no_gettext ex_spare ex_heap (Some 1) 5 (Some [])
     = Inl BufferOverflow"
proof -
  have lp: "orth_loop [] (map (ex_gc_euro ex_heap) [3, 4, 5]) 5 ex_spare
              = Inr [CHR 0xE2, CHR 0x82, CHR 0xAC, CHR 0xE2]"
    by code_simp
  have nw: "\<not> utf8_whole [CHR 0xE2, CHR 0x82, CHR 0xAC, CHR 0xE2]" by code_simp
  have cpy: "g_utf8_strncpy [CHR 0xE2, CHR 0x82, CHR 0xAC, CHR 0xE2] 2 5 = Inl BufferOverflow"
    by code_simp
  have c1: "ex_cp ex_heap 1 = Some (ex_heap, 0)" by (simp add: ex_cp_def)
  have "entry_orths_to_string ex_xp ex_gc_euro ex_cp no_gettext ex_spare ex_heap (Some 1) 5 (Some [])
     = Inl BufferOverflow"
    using c1 ex_find_orths lp cpy
    by (simp add: entry_orths_to_string_def copy_node_to_doc_def)
  with lp nw ex_find_orths show ?thesis by simp
qed

end
